theory Spec2Isabelle
  imports Complex_Main "HOL-Library.Log_Nat"
begin

section \<open>vsketch\_cli/utils.py: the data the functions work on\<close>

text \<open>
  A \<^verbatim>\<open>pathlib.Path\<close> is kept as the expression that built it: \<open>Path s\<close> is
  \<^verbatim>\<open>pathlib.Path(s)\<close>, \<open>Div p s\<close> is \<^verbatim>\<open>p / s\<close> and \<open>Parent p\<close> is
  \<^verbatim>\<open>p.parent\<close>. What a path denotes is decided by the file system of the world
  below, never by the shape of the term. A path and its \<^verbatim>\<open>str()\<close> are identified.
\<close>

datatype path = Path string | Div path string | Parent path

text \<open>
  Python exceptions. \<open>Exc n\<close> is an instance of a class that derives from
  \<^verbatim>\<open>Exception\<close> (SyntaxError, ValueError, OSError, ...); \<open>BaseExc n\<close> is an instance
  of a class that derives from \<^verbatim>\<open>BaseException\<close> only (SystemExit,
  KeyboardInterrupt, GeneratorExit). The string is the class name.
\<close>

datatype exc = Exc string | BaseExc string

fun is_Exception :: "exc \<Rightarrow> bool" where
  "is_Exception (Exc n) = True"
| "is_Exception (BaseExc n) = False"

text \<open>
  The state of a randomness source: freshly seeded with an integer, seeded from the
  operating system's entropy, or the state reached by drawing one more value.
\<close>

datatype rng = Seeded int | Entropy nat | Next rng

text \<open>
  The process and its surroundings. \<open>cwd\<close> is what \<^verbatim>\<open>os.getcwd()\<close> returns.
  \<open>resolve_dir w c p\<close> is the directory (by the name \<^verbatim>\<open>os.getcwd()\<close> reports
  once it is entered) that the path \<open>p\<close> names when the current directory is \<open>c\<close>,
  and \<open>None\<close> when \<open>p\<close> names no directory there; \<open>read_file w c p\<close> is the text
  of the regular file that \<open>p\<close> names. \<open>py_random\<close> and \<open>np_random\<close> are the
  states of \<^verbatim>\<open>random\<close> and \<^verbatim>\<open>numpy.random\<close>, \<open>stderr\<close> the lines written to
  the error channel. Classes are numbered; \<open>cls_mro c\<close> is the \<^verbatim>\<open>__mro__\<close> of
  class \<open>c\<close> and \<open>cls_cwd c\<close> the attribute \<^verbatim>\<open>__vsketch_cwd__\<close> set on \<open>c\<close>
  itself. Code that runs (a script, a constructor, a drawing procedure) may change
  every field.
\<close>

record world =
  cwd :: path
  resolve_dir :: "path \<Rightarrow> path \<rightharpoonup> path"
  read_file :: "path \<Rightarrow> path \<rightharpoonup> string"
  py_random :: rng
  np_random :: rng
  stderr :: "string list"
  cls_mro :: "nat \<Rightarrow> nat list"
  cls_cwd :: "nat \<rightharpoonup> path"

text \<open>\<^verbatim>\<open>Path.exists()\<close> and \<^verbatim>\<open>Path.is_dir()\<close>.\<close>

definition path_exists :: "world \<Rightarrow> path \<Rightarrow> bool" where
  "path_exists w p = (resolve_dir w (cwd w) p \<noteq> None \<or> read_file w (cwd w) p \<noteq> None)"

definition is_dir :: "world \<Rightarrow> path \<Rightarrow> bool" where
  "is_dir w p = (resolve_dir w (cwd w) p \<noteq> None)"

text \<open>
  \<^verbatim>\<open>os.getcwd()\<close> raises when the current directory no longer exists;
  \<^verbatim>\<open>os.chdir(p)\<close> raises an \<^verbatim>\<open>OSError\<close> when \<open>p\<close> names no directory and
  leaves the current directory as it was.
\<close>

definition os_getcwd :: "world \<Rightarrow> exc + path" where
  "os_getcwd w =
     (if resolve_dir w (cwd w) (cwd w) = None then Inl (Exc ''FileNotFoundError'')
      else Inr (cwd w))"

definition os_chdir :: "path \<Rightarrow> world \<Rightarrow> (exc + unit) \<times> world" where
  "os_chdir p w =
     (case resolve_dir w (cwd w) p of
        None \<Rightarrow> (Inl (Exc ''OSError''), w)
      | Some d \<Rightarrow> (Inr (), w\<lparr>cwd := d\<rparr>))"

section \<open>find\_unique\_path\<close>

text \<open>\<^verbatim>\<open>str.rfind\<close> for a single character: the highest index, or -1.\<close>

definition rfind :: "char \<Rightarrow> string \<Rightarrow> int" where
  "rfind c s =
     (case filter (\<lambda>i. s ! i = c) (rev [0..<length s]) of
        [] \<Rightarrow> - 1
      | i # _ \<Rightarrow> int i)"

text \<open>
  The loop of \<^verbatim>\<open>genericpath._splitext\<close> that skips the leading dots of the last
  component: true when a character other than a dot stands before the last dot.
\<close>

function skip_leading_dots :: "string \<Rightarrow> nat \<Rightarrow> nat \<Rightarrow> bool" where
  "skip_leading_dots p filenameIndex dotIndex =
     (if filenameIndex < dotIndex
      then (if p ! filenameIndex \<noteq> CHR ''.'' then True
            else skip_leading_dots p (filenameIndex + 1) dotIndex)
      else False)"
  by pat_completeness auto
termination
  by (relation "measure (\<lambda>(p, i, d). d - i)") auto

declare skip_leading_dots.simps [simp del]

text \<open>\<^verbatim>\<open>os.path.splitext\<close> (posixpath).\<close>

definition splitext :: "string \<Rightarrow> string \<times> string" where
  "splitext p =
     (let sepIndex = rfind CHR ''/'' p;
          dotIndex = rfind CHR ''.'' p
      in if dotIndex > sepIndex \<and> skip_leading_dots p (nat (sepIndex + 1)) (nat dotIndex)
         then (take (nat dotIndex) p, drop (nat dotIndex) p)
         else (p, []))"

text \<open>\<^verbatim>\<open>str(index)\<close> for the index of the loop, which starts at 1 or 2 and only grows.\<close>

definition digit_char :: "nat \<Rightarrow> char" where
  "digit_char d = ''0123456789'' ! d"

function str_nat :: "nat \<Rightarrow> string" where
  "str_nat n =
     (if n < 10 then [digit_char n]
      else str_nat (n div 10) @ [digit_char (n mod 10)])"
  by pat_completeness auto
termination
  by (relation "measure id") auto

declare str_nat.simps [simp del]

text \<open>
  The \<^verbatim>\<open>while True\<close> loop of \<^verbatim>\<open>find_unique_path\<close>, with its two variables
  \<open>name\<close> and \<open>index\<close>. It returns when the candidate does not exist; \<open>None\<close> is
  the loop that never returns.
\<close>

partial_function (option) find_unique_loop ::
  "world \<Rightarrow> path \<Rightarrow> string \<Rightarrow> string \<Rightarrow> bool \<Rightarrow> string \<Rightarrow> nat \<Rightarrow> path option" where
  "find_unique_loop w dir_path base_name ext always_number name index =
     (let name1 = (if always_number then base_name @ ''_'' @ str_nat index else name);
          path = Div dir_path (name1 @ ext)
      in if \<not> path_exists w path then Some path
         else find_unique_loop w dir_path base_name ext always_number
                (if \<not> always_number then base_name @ ''_'' @ str_nat index else name1)
                (index + 1))"

definition find_unique_path :: "world \<Rightarrow> string \<Rightarrow> path \<Rightarrow> bool \<Rightarrow> path option" where
  "find_unique_path w filename dir_path always_number =
     (case splitext filename of
        (base_name, ext) \<Rightarrow>
          find_unique_loop w dir_path base_name ext always_number base_name
            (if always_number then 1 else 2))"

text \<open>The candidate with suffix \<open>_k\<close>.\<close>

definition candidate :: "path \<Rightarrow> string \<Rightarrow> nat \<Rightarrow> path" where
  "candidate dir_path filename k =
     Div dir_path (fst (splitext filename) @ ''_'' @ str_nat k @ snd (splitext filename))"

section \<open>working\_directory\<close>

text \<open>
  The context manager around a scope body. The body is any code: it returns a value or
  raises, and leaves a world behind in both cases. The \<^verbatim>\<open>finally\<close> clause runs on
  both; an exception raised there replaces the outcome of the body.
\<close>

definition working_directory ::
  "path \<Rightarrow> (world \<Rightarrow> (exc + 'a) \<times> world) \<Rightarrow> world \<Rightarrow> (exc + 'a) \<times> world" where
  "working_directory path body w =
     (case os_getcwd w of
        Inl e \<Rightarrow> (Inl e, w)
      | Inr prev_cwd \<Rightarrow>
          (case os_chdir path w of
             (Inl e, w1) \<Rightarrow> (Inl e, w1)
           | (Inr u, w1) \<Rightarrow>
               (case body w1 of
                  (r, w2) \<Rightarrow>
                    (case os_chdir prev_cwd w2 of
                       (Inl e, w3) \<Rightarrow> (Inl e, w3)
                     | (Inr u', w3) \<Rightarrow> (r, w3)))))"

text \<open>
  The scope can give the directory back: it is never entered, or the directory saved
  at entry still names itself when the body is done.
\<close>

definition restorable :: "path \<Rightarrow> (world \<Rightarrow> (exc + 'a) \<times> world) \<Rightarrow> world \<Rightarrow> bool" where
  "restorable path body w =
     (case os_getcwd w of
        Inl e \<Rightarrow> True
      | Inr prev_cwd \<Rightarrow>
          (case os_chdir path w of
             (Inl e, w1) \<Rightarrow> True
           | (Inr u, w1) \<Rightarrow>
               resolve_dir (snd (body w1)) (cwd (snd (body w1))) prev_cwd = Some prev_cwd))"

section \<open>load\_sketch\_class\<close>

text \<open>
  A value bound at the top level of a script: a class, by its number, or anything else.
  \<^verbatim>\<open>run_path\<close> returns the script's globals, a dict, kept here as the list of its
  items in the order \<^verbatim>\<open>dict.values()\<close> visits them.
\<close>

datatype pyval = ClassObj nat | OtherObj string

type_synonym namespace = "(string \<times> pyval) list"

text \<open>The class \<^verbatim>\<open>vsketch.Vsketch\<close>.\<close>

definition Vsketch :: nat where
  "Vsketch = 0"

definition issubclass :: "world \<Rightarrow> nat \<Rightarrow> nat \<Rightarrow> bool" where
  "issubclass w c base = (base \<in> set (cls_mro w c))"

text \<open>\<^verbatim>\<open>inspect.isclass(cls) and issubclass(cls, vsketch.Vsketch)\<close>.\<close>

fun is_sketch_class :: "world \<Rightarrow> pyval \<Rightarrow> bool" where
  "is_sketch_class w (ClassObj c) = issubclass w c Vsketch"
| "is_sketch_class w (OtherObj s) = False"

text \<open>The \<^verbatim>\<open>for\<close> loop over the values of the script's globals.\<close>

fun scan_values :: "pyval list \<Rightarrow> path \<Rightarrow> world \<Rightarrow> nat option \<times> world" where
  "scan_values [] cwd_path w = (None, w)"
| "scan_values (ClassObj c # vs) cwd_path w =
     (if issubclass w c Vsketch
      then (Some c, w\<lparr>cls_cwd := (cls_cwd w)(c \<mapsto> cwd_path)\<rparr>)
      else scan_values vs cwd_path w)"
| "scan_values (OtherObj s # vs) cwd_path w = scan_values vs cwd_path w"

text \<open>\<^verbatim>\<open>traceback.print_exc()\<close> and \<^verbatim>\<open>print_error\<close>: both write to the error channel.\<close>

fun exc_name :: "exc \<Rightarrow> string" where
  "exc_name (Exc n) = n"
| "exc_name (BaseExc n) = n"

definition print_exc :: "exc \<Rightarrow> world \<Rightarrow> world" where
  "print_exc e w =
     w\<lparr>stderr := stderr w @ [''Traceback (most recent call last): '' @ exc_name e]\<rparr>"

definition print_error :: "string \<Rightarrow> string \<Rightarrow> world \<Rightarrow> world" where
  "print_error title_str detail_str w = w\<lparr>stderr := stderr w @ [title_str @ detail_str]\<rparr>"

text \<open>The directory \<^verbatim>\<open>load_sketch_class\<close> makes current while the script runs.\<close>

definition context_dir :: "world \<Rightarrow> path \<Rightarrow> path" where
  "context_dir w path = (if \<not> is_dir w path then Parent path else path)"

text \<open>
  \<open>run_path\<close> is \<^verbatim>\<open>runpy.run_path\<close>: what running the script at a path does to the
  world, and the globals it returns or the exception it raises.
  \<^verbatim>\<open>except Exception\<close> catches the instances of \<^verbatim>\<open>Exception\<close> and lets the others
  through.
\<close>

definition load_sketch_class ::
  "(path \<Rightarrow> world \<Rightarrow> (exc + namespace) \<times> world) \<Rightarrow> path \<Rightarrow> world
     \<Rightarrow> (exc + nat option) \<times> world" where
  "load_sketch_class run_path path w =
     (case working_directory (context_dir w path) (run_path path) w of
        (Inl e, w1) \<Rightarrow>
          (if is_Exception e
           then (Inr None,
                 print_error ''Could not load script due to previous error.'' []
                   (print_exc e w1))
           else (Inl e, w1))
      | (Inr sketch_scripts, w1) \<Rightarrow>
          (case scan_values (map snd sketch_scripts) (context_dir w path) w1 of
             (r, w2) \<Rightarrow> (Inr r, w2)))"

section \<open>Python floats\<close>

text \<open>
  A Python \<^verbatim>\<open>float\<close> is an IEEE 754 binary64 number: a finite value, an infinity or
  a NaN. A finite value is kept as the real number it denotes; the sign of zero is not
  kept. \<open>fl\<close> rounds a real result to the nearest double, ties to the even
  significand: every finite double is a multiple of \<open>2 ^ - emin\<close>, so the result is
  rounded in units of \<open>2 ^ ulp_shift x\<close> such multiples, which leaves 53 significant
  bits, and a rounded result of magnitude \<open>2 ^ emax\<close> or more overflows to an
  infinity.
\<close>

datatype double = Dbl real | PInf | NInf | NaN

definition emin :: nat where
  "emin = 1074"

definition emax :: nat where
  "emax = 1024"

definition round_half_even :: "real \<Rightarrow> int" where
  "round_half_even q =
     (if q - of_int \<lfloor>q\<rfloor> < 1 / 2 then \<lfloor>q\<rfloor>
      else if 1 / 2 < q - of_int \<lfloor>q\<rfloor> then \<lfloor>q\<rfloor> + 1
      else if even \<lfloor>q\<rfloor> then \<lfloor>q\<rfloor> else \<lfloor>q\<rfloor> + 1)"

definition bit_length :: "real \<Rightarrow> nat" where
  "bit_length x = nat (bitlen \<lfloor>\<bar>x\<bar> * 2 ^ emin\<rfloor>)"

definition ulp_shift :: "real \<Rightarrow> nat" where
  "ulp_shift x = bit_length x - 53"

definition round_nearest :: "real \<Rightarrow> real" where
  "round_nearest x =
     of_int (round_half_even (x * 2 ^ emin / 2 ^ ulp_shift x)) * 2 ^ ulp_shift x / 2 ^ emin"

definition fl :: "real \<Rightarrow> double" where
  "fl x =
     (if 2 ^ emax \<le> round_nearest x then PInf
      else if round_nearest x \<le> - (2 ^ emax) then NInf
      else Dbl (round_nearest x))"

text \<open>Addition, negation, subtraction, and the division by \<^verbatim>\<open>2.0\<close> of line 125.\<close>

fun fadd :: "double \<Rightarrow> double \<Rightarrow> double" where
  "fadd NaN b = NaN"
| "fadd a NaN = NaN"
| "fadd PInf NInf = NaN"
| "fadd NInf PInf = NaN"
| "fadd PInf b = PInf"
| "fadd a PInf = PInf"
| "fadd NInf b = NInf"
| "fadd a NInf = NInf"
| "fadd (Dbl x) (Dbl y) = fl (x + y)"

fun fneg :: "double \<Rightarrow> double" where
  "fneg (Dbl x) = Dbl (- x)"
| "fneg PInf = NInf"
| "fneg NInf = PInf"
| "fneg NaN = NaN"

definition fsub :: "double \<Rightarrow> double \<Rightarrow> double" where
  "fsub a b = fadd a (fneg b)"

fun fdiv2 :: "double \<Rightarrow> double" where
  "fdiv2 (Dbl x) = fl (x / 2)"
| "fdiv2 PInf = PInf"
| "fdiv2 NInf = NInf"
| "fdiv2 NaN = NaN"

text \<open>The order of the values that are no NaN, and minimum and maximum as NumPy takes
  them over an array: a NaN among the values is the result.\<close>

fun dle :: "double \<Rightarrow> double \<Rightarrow> bool" where
  "dle NaN b = False"
| "dle a NaN = False"
| "dle NInf b = True"
| "dle a PInf = True"
| "dle (Dbl x) (Dbl y) = (x \<le> y)"
| "dle PInf b = False"
| "dle a NInf = False"

definition dmin :: "double \<Rightarrow> double \<Rightarrow> double" where
  "dmin a b = (if a = NaN \<or> b = NaN then NaN else if dle a b then a else b)"

definition dmax :: "double \<Rightarrow> double \<Rightarrow> double" where
  "dmax a b = (if a = NaN \<or> b = NaN then NaN else if dle a b then b else a)"

section \<open>The document and the sketch instance\<close>

text \<open>
  Modelled from the spec: the Document of the drawing library, which the spec gives as
  an optional page size (width, height), a bounds query that returns the rectangle
  (min-x, min-y, max-x, max-y) over the geometry or nothing for an empty document, and
  an additive global translation. The geometry is a list of lines, each a list of
  points with float coordinates; the translation adds the offsets to every point in
  float arithmetic.
\<close>

record vp_document =
  page_size :: "(double \<times> double) option"
  geometry :: "(double \<times> double) list list"

definition bounds :: "vp_document \<Rightarrow> (double \<times> double \<times> double \<times> double) option" where
  "bounds d =
     (case concat (geometry d) of
        [] \<Rightarrow> None
      | p # ps \<Rightarrow>
          Some (fold dmin (map fst ps) (fst p), fold dmin (map snd ps) (snd p),
                fold dmax (map fst ps) (fst p), fold dmax (map snd ps) (snd p)))"

definition translate :: "double \<Rightarrow> double \<Rightarrow> vp_document \<Rightarrow> vp_document" where
  "translate dx dy d =
     d\<lparr>geometry := map (map (\<lambda>(x, y). (fadd x dx, fadd y dy))) (geometry d)\<rparr>"

text \<open>
  Modelled from the spec: an instance of \<^verbatim>\<open>vsketch.Vsketch\<close>, with the state of its
  own randomness source and of its noise source, the \<^verbatim>\<open>centered\<close> flag, the document,
  and whatever else the user's class keeps in it. \<^verbatim>\<open>randomSeed\<close> and \<^verbatim>\<open>noiseSeed\<close>
  seed the two sources of the instance.
\<close>

record 'u vsketch =
  random_state :: rng
  noise_state :: rng
  centered :: bool
  document :: vp_document
  user :: 'u

definition randomSeed :: "int \<Rightarrow> 'u vsketch \<Rightarrow> 'u vsketch" where
  "randomSeed seed vsk = vsk\<lparr>random_state := Seeded seed\<rparr>"

definition noiseSeed :: "int \<Rightarrow> 'u vsketch \<Rightarrow> 'u vsketch" where
  "noiseSeed seed vsk = vsk\<lparr>noise_state := Seeded seed\<rparr>"

text \<open>
  \<^verbatim>\<open>random.seed\<close> takes any integer; \<^verbatim>\<open>numpy.random.seed\<close> raises a
  \<^verbatim>\<open>ValueError\<close> for a seed outside 0 .. 2**32 - 1.
\<close>

definition random_seed :: "int \<Rightarrow> world \<Rightarrow> world" where
  "random_seed seed w = w\<lparr>py_random := Seeded seed\<rparr>"

definition np_random_seed :: "int \<Rightarrow> world \<Rightarrow> (exc + unit) \<times> world" where
  "np_random_seed seed w =
     (if 0 \<le> seed \<and> seed < 2 ^ 32 then (Inr (), w\<lparr>np_random := Seeded seed\<rparr>)
      else (Inl (Exc ''ValueError''), w))"

text \<open>
  The code of a sketch class: its constructor, which may return no instance, and its
  \<^verbatim>\<open>draw\<close> and \<^verbatim>\<open>finalize\<close> procedures. Each may raise, and each may read and
  change the instance and the world.
\<close>

record 'u sketch_code =
  new_sketch :: "world \<Rightarrow> (exc + 'u vsketch option) \<times> world"
  draw :: "'u vsketch \<Rightarrow> world \<Rightarrow> (exc + unit) \<times> 'u vsketch \<times> world"
  finalize :: "'u vsketch \<Rightarrow> world \<Rightarrow> (exc + unit) \<times> 'u vsketch \<times> world"

section \<open>execute\_sketch\<close>

text \<open>
  \<^verbatim>\<open>getattr(sketch_class, "__vsketch_cwd__", ...)\<close> looks the attribute up along
  the MRO.
\<close>

definition getattr_vsketch_cwd :: "world \<Rightarrow> nat \<Rightarrow> path option" where
  "getattr_vsketch_cwd w c =
     (case List.map_filter (cls_cwd w) (cls_mro w c) of
        [] \<Rightarrow> None
      | p # ps \<Rightarrow> Some p)"

text \<open>Lines 109 to 113: the four sources, in the order of the source.\<close>

definition seed_sources ::
  "int option \<Rightarrow> 'u vsketch \<Rightarrow> world \<Rightarrow> (exc + unit) \<times> 'u vsketch \<times> world" where
  "seed_sources seed vsk w =
     (case seed of
        None \<Rightarrow> (Inr (), vsk, w)
      | Some s \<Rightarrow>
          (case np_random_seed s (random_seed s w) of
             (Inl e, w1) \<Rightarrow> (Inl e, noiseSeed s (randomSeed s vsk), w1)
           | (Inr u, w1) \<Rightarrow> (Inr (), noiseSeed s (randomSeed s vsk), w1)))"

text \<open>
  Lines 105 to 116: the body of the \<^verbatim>\<open>with\<close> block. \<open>Inr None\<close> is the early
  \<^verbatim>\<open>return None\<close>, \<open>Inr (Some vsk)\<close> the instance the block leaves in \<^verbatim>\<open>vsk\<close>.
\<close>

definition sketch_scope ::
  "'u sketch_code \<Rightarrow> int option \<Rightarrow> bool \<Rightarrow> world \<Rightarrow> (exc + 'u vsketch option) \<times> world" where
  "sketch_scope code seed fin w =
     (case new_sketch code w of
        (Inl e, w1) \<Rightarrow> (Inl e, w1)
      | (Inr None, w1) \<Rightarrow> (Inr None, w1)
      | (Inr (Some vsk), w1) \<Rightarrow>
          (case seed_sources seed vsk w1 of
             (Inl e, vsk1, w2) \<Rightarrow> (Inl e, w2)
           | (Inr u, vsk1, w2) \<Rightarrow>
               (case draw code vsk1 w2 of
                  (Inl e, vsk2, w3) \<Rightarrow> (Inl e, w3)
                | (Inr u', vsk2, w3) \<Rightarrow>
                    (if fin
                     then (case finalize code vsk2 w3 of
                             (Inl e, vsk3, w4) \<Rightarrow> (Inl e, w4)
                           | (Inr u'', vsk3, w4) \<Rightarrow> (Inr (Some vsk3), w4))
                     else (Inr (Some vsk2), w3)))))"

text \<open>
  Lines 125 and 126: \<^verbatim>\<open>(extent - (hi - lo)) / 2.0 - lo\<close>, for the width with the
  bounds in x and for the height with the bounds in y.
\<close>

definition center_offset :: "double \<Rightarrow> double \<Rightarrow> double \<Rightarrow> double" where
  "center_offset extent lo hi = fsub (fdiv2 (fsub extent (fsub hi lo))) lo"

text \<open>Lines 120 to 127: the centering of the document.\<close>

definition centering :: "'u vsketch \<Rightarrow> 'u vsketch" where
  "centering vsk =
     (if centered vsk \<and> page_size (document vsk) \<noteq> None
      then (case bounds (document vsk) of
              None \<Rightarrow> vsk
            | Some (b0, b1, b2, b3) \<Rightarrow>
                (case page_size (document vsk) of
                   None \<Rightarrow> vsk
                 | Some (width, height) \<Rightarrow>
                     vsk\<lparr>document :=
                       translate (center_offset width b0 b2) (center_offset height b1 b3)
                         (document vsk)\<rparr>))
      else vsk)"


text \<open>
  \<open>prog c\<close> is the code of class \<open>c\<close>. The default of \<^verbatim>\<open>getattr\<close>,
  \<^verbatim>\<open>pathlib.Path(os.getcwd())\<close>, is evaluated before the lookup.
\<close>

definition execute_sketch ::
  "(nat \<Rightarrow> 'u sketch_code) \<Rightarrow> nat option \<Rightarrow> int option \<Rightarrow> bool \<Rightarrow> world
     \<Rightarrow> (exc + 'u vsketch option) \<times> world" where
  "execute_sketch prog sketch_class seed fin w =
     (case sketch_class of
        None \<Rightarrow> (Inr None, w)
      | Some c \<Rightarrow>
          (case os_getcwd w of
             Inl e \<Rightarrow> (Inl e, w)
           | Inr here \<Rightarrow>
               (case working_directory
                       (case getattr_vsketch_cwd w c of None \<Rightarrow> here | Some p \<Rightarrow> p)
                       (sketch_scope (prog c) seed fin) w of
                  (Inl e, w1) \<Rightarrow> (Inl e, w1)
                | (Inr None, w1) \<Rightarrow> (Inr None, w1)
                | (Inr (Some vsk), w1) \<Rightarrow> (Inr (Some (centering vsk)), w1))))"

text \<open>The directory \<^verbatim>\<open>execute_sketch\<close> makes current for class \<open>c\<close>.\<close>

definition sketch_dir :: "world \<Rightarrow> nat \<Rightarrow> path" where
  "sketch_dir w c = (case getattr_vsketch_cwd w c of None \<Rightarrow> cwd w | Some p \<Rightarrow> p)"

text \<open>
  The geometry a run hands to its caller: the exception, nothing, or the document of
  the returned instance.
\<close>

definition produced ::
  "(exc + 'u vsketch option) \<times> world \<Rightarrow> exc + vp_document option" where
  "produced r = map_sum id (map_option document) (fst r)"

text \<open>Two worlds that differ at most in the two process-wide randomness sources.\<close>

definition same_but_random :: "world \<Rightarrow> world \<Rightarrow> bool" where
  "same_but_random w w' =
     (w'\<lparr>py_random := py_random w, np_random := np_random w\<rparr> = w)"

text \<open>Two instances that differ at most in their two randomness sources.\<close>

definition same_but_seeds :: "'u vsketch \<Rightarrow> 'u vsketch \<Rightarrow> bool" where
  "same_but_seeds v v' =
     (v'\<lparr>random_state := random_state v, noise_state := noise_state v\<rparr> = v)"

text \<open>
  A constructor that uses the randomness it finds only to initialise the two sources
  of the instance: from worlds that differ in the process-wide sources it raises the
  same exception, or returns no instance both times, or returns two instances that
  differ in their sources only.
\<close>

definition ctor_random_free :: "'u sketch_code \<Rightarrow> bool" where
  "ctor_random_free code =
     (\<forall>w w'. same_but_random w w' \<longrightarrow>
        same_but_random (snd (new_sketch code w)) (snd (new_sketch code w')) \<and>
        (case (fst (new_sketch code w), fst (new_sketch code w')) of
           (Inl e, Inl e') \<Rightarrow> e = e'
         | (Inr None, Inr None) \<Rightarrow> True
         | (Inr (Some v), Inr (Some v')) \<Rightarrow> same_but_seeds v v'
         | _ \<Rightarrow> False))"

section \<open>load\_config\<close>

text \<open>A value \<^verbatim>\<open>json.load\<close> can return.\<close>

datatype json =
  JNull | JBool bool | JInt int | JFloat double | JStr string
| JArr "json list" | JObj "(string \<times> json) list"

text \<open>\<^verbatim>\<open>open(path, "r")\<close> followed by reading the whole file.\<close>

definition open_read :: "path \<Rightarrow> world \<Rightarrow> exc + string" where
  "open_read p w =
     (case read_file w (cwd w) p of
        None \<Rightarrow> Inl (Exc ''OSError'')
      | Some s \<Rightarrow> Inr s)"

text \<open>
  \<open>json_loads\<close> is the parser of the \<^verbatim>\<open>json\<close> module on the text of the file: a
  value, or the \<^verbatim>\<open>JSONDecodeError\<close> it raises.
\<close>

definition load_config :: "(string \<Rightarrow> exc + json) \<Rightarrow> path \<Rightarrow> world \<Rightarrow> exc + json" where
  "load_config json_loads path w =
     (case open_read path w of
        Inl e \<Rightarrow> Inl e
      | Inr txt \<Rightarrow> json_loads txt)"

section \<open>Concrete inputs\<close>

text \<open>
  A process in \<^verbatim>\<open>/home/u\<close>, with a directory \<^verbatim>\<open>out\<close> that holds the files
  \<^verbatim>\<open>sketch.svg\<close>, \<^verbatim>\<open>sketch.py\<close> and \<^verbatim>\<open>params.json\<close>, and a directory
  \<^verbatim>\<open>empty\<close> that holds nothing. The classes numbered 4 and above derive from
  \<^verbatim>\<open>Vsketch\<close>, the others do not; none carries \<^verbatim>\<open>__vsketch_cwd__\<close>.
\<close>

definition home_world :: world where
  "home_world =
     \<lparr>cwd = Path ''/home/u'',
      resolve_dir = (\<lambda>c. [Path ''/home/u'' \<mapsto> Path ''/home/u'',
                           Path ''out'' \<mapsto> Path ''/home/u/out'',
                           Parent (Div (Path ''out'') ''sketch.py'') \<mapsto> Path ''/home/u/out'',
                           Path ''empty'' \<mapsto> Path ''/home/u/empty'']),
      read_file = (\<lambda>c. [Div (Path ''out'') ''sketch.svg'' \<mapsto> ''<svg/>'',
                         Div (Path ''out'') ''sketch.py'' \<mapsto> ''import vsketch'',
                         Div (Path ''out'') ''params.json'' \<mapsto> ''[]'']),
      py_random = Entropy 0, np_random = Entropy 7, stderr = [],
      cls_mro = (\<lambda>c. if c < 4 then [c] else [c, Vsketch]), cls_cwd = Map.empty\<rparr>"

text \<open>
  A process in the empty directory \<^verbatim>\<open>/tmp/job\<close>; the sketch class 5 was loaded
  from \<^verbatim>\<open>/srv/sketches\<close> and carries that directory in \<^verbatim>\<open>__vsketch_cwd__\<close>.
\<close>

definition job_world :: world where
  "job_world =
     \<lparr>cwd = Path ''/tmp/job'',
      resolve_dir = (\<lambda>c. [Path ''/tmp/job'' \<mapsto> Path ''/tmp/job'',
                           Path ''/srv/sketches'' \<mapsto> Path ''/srv/sketches'']),
      read_file = (\<lambda>c. Map.empty),
      py_random = Entropy 0, np_random = Entropy 7, stderr = [],
      cls_mro = (\<lambda>c. [c, Vsketch]), cls_cwd = [5 \<mapsto> Path ''/srv/sketches'']\<rparr>"

text \<open>Code that removes a directory: no path names it afterwards.\<close>

definition remove_dir :: "path \<Rightarrow> world \<Rightarrow> world" where
  "remove_dir d w =
     w\<lparr>resolve_dir := (\<lambda>c p. if resolve_dir w c p = Some d then None else resolve_dir w c p)\<rparr>"

text \<open>
  Three scope bodies: one returns, one raises, one removes \<^verbatim>\<open>/tmp/job\<close> and returns.
\<close>

definition body_returns :: "world \<Rightarrow> (exc + unit) \<times> world" where
  "body_returns w = (Inr (), w)"

definition body_raises :: "world \<Rightarrow> (exc + unit) \<times> world" where
  "body_raises w = (Inl (Exc ''RuntimeError''), w)"

definition body_removes_job :: "world \<Rightarrow> (exc + unit) \<times> world" where
  "body_removes_job w = (Inr (), remove_dir (Path ''/tmp/job'') w)"

text \<open>
  Four scripts. The first binds a string, a class that is no sketch, and the sketch
  classes 5 and 6, in this order; the second binds no sketch class; the third fails
  with a \<^verbatim>\<open>NameError\<close>; the fourth calls \<^verbatim>\<open>sys.exit()\<close> at its top level.
\<close>

definition script_two_sketches :: "path \<Rightarrow> world \<Rightarrow> (exc + namespace) \<times> world" where
  "script_two_sketches p w =
     (Inr [(''__name__'', OtherObj ''<run_path>''), (''Helper'', ClassObj 3),
           (''First'', ClassObj 5), (''Second'', ClassObj 6)], w)"

definition script_no_sketch :: "path \<Rightarrow> world \<Rightarrow> (exc + namespace) \<times> world" where
  "script_no_sketch p w =
     (Inr [(''__name__'', OtherObj ''<run_path>''), (''Helper'', ClassObj 3)], w)"



text \<open>
  A sketch with \<^verbatim>\<open>centered = True\<close> and a page of 100 by 100 whose \<^verbatim>\<open>draw\<close>
  adds one closed line, the rectangle from (10, 10) to (30, 50).
\<close>

definition blank_sketch :: "unit vsketch" where
  "blank_sketch =
     \<lparr>random_state = Entropy 2, noise_state = Entropy 3, centered = True,
      document = \<lparr>page_size = Some (Dbl 100, Dbl 100), geometry = []\<rparr>, user = ()\<rparr>"

definition add_line :: "(double \<times> double) list \<Rightarrow> 'u vsketch \<Rightarrow> 'u vsketch" where
  "add_line l v = v\<lparr>document := (document v)\<lparr>geometry := geometry (document v) @ [l]\<rparr>\<rparr>"

definition rect_sketch :: "unit sketch_code" where
  "rect_sketch =
     \<lparr>new_sketch = (\<lambda>w. (Inr (Some blank_sketch), w)),
      draw = (\<lambda>v w. (Inr (), add_line [(Dbl 10, Dbl 10), (Dbl 30, Dbl 10), (Dbl 30, Dbl 50), (Dbl 10, Dbl 50), (Dbl 10, Dbl 10)] v, w)),
      finalize = (\<lambda>v w. (Inr (), v, w))\<rparr>"


text \<open>
  A sketch whose \<^verbatim>\<open>draw\<close> raises, and one whose \<^verbatim>\<open>draw\<close> removes \<^verbatim>\<open>/tmp/job\<close>
  before it raises.
\<close>

definition failing_sketch :: "unit sketch_code" where
  "failing_sketch =
     \<lparr>new_sketch = (\<lambda>w. (Inr (Some blank_sketch), w)),
      draw = (\<lambda>v w. (Inl (Exc ''ZeroDivisionError''), v, w)),
      finalize = (\<lambda>v w. (Inr (), v, w))\<rparr>"

definition vandal_sketch :: "unit sketch_code" where
  "vandal_sketch =
     \<lparr>new_sketch = (\<lambda>w. (Inr (Some blank_sketch), w)),
      draw = (\<lambda>v w. (Inl (Exc ''ZeroDivisionError''), v, remove_dir (Path ''/tmp/job'') w)),
      finalize = (\<lambda>v w. (Inr (), v, w))\<rparr>"

text \<open>The number a randomness source gives next, before it is rounded to a float.\<close>

fun rng_sample :: "rng \<Rightarrow> real" where
  "rng_sample (Seeded s) = real_of_int s"
| "rng_sample (Entropy n) = - 1 - real n"
| "rng_sample (Next r) = rng_sample r / 2 + 1"

text \<open>
  A sketch that draws from all four sources: its constructor seeds the two sources of
  the instance from \<^verbatim>\<open>random\<close>, as \<^verbatim>\<open>Vsketch.__init__\<close> does, and its \<^verbatim>\<open>draw\<close>
  adds a line through one sample of each source.
\<close>

definition noisy_sketch :: "unit sketch_code" where
  "noisy_sketch =
     \<lparr>new_sketch =
        (\<lambda>w. (Inr (Some (blank_sketch\<lparr>random_state := Next (py_random w),
                                       noise_state := Next (Next (py_random w))\<rparr>)),
               w\<lparr>py_random := Next (Next (py_random w))\<rparr>)),
      draw =
        (\<lambda>v w. (Inr (),
                 add_line [(fl (rng_sample (random_state v)), fl (rng_sample (noise_state v))),
                           (fl (rng_sample (py_random w)), fl (rng_sample (np_random w)))]
                   (v\<lparr>random_state := Next (random_state v),
                      noise_state := Next (noise_state v)\<rparr>),
                 w\<lparr>py_random := Next (py_random w), np_random := Next (np_random w)\<rparr>)),
      finalize = (\<lambda>v w. (Inr (), v, w))\<rparr>"

text \<open>
  A sketch whose constructor draws a number from \<^verbatim>\<open>random\<close> and keeps it in a field,
  and whose \<^verbatim>\<open>draw\<close> consumes no randomness: it adds a line from the origin to the
  kept number.
\<close>

definition lucky_sketch :: "double sketch_code" where
  "lucky_sketch =
     \<lparr>new_sketch =
        (\<lambda>w. (Inr (Some \<lparr>random_state = Entropy 2, noise_state = Entropy 3, centered = False,
                          document = \<lparr>page_size = Some (Dbl 100, Dbl 100), geometry = []\<rparr>,
                          user = fl (rng_sample (py_random w))\<rparr>),
               w\<lparr>py_random := Next (py_random w)\<rparr>)),
      draw = (\<lambda>v w. (Inr (), add_line [(Dbl 0, Dbl 0), (user v, Dbl 0)] v, w)),
      finalize = (\<lambda>v w. (Inr (), v, w))\<rparr>"

text \<open>A stand-in for the parser on three texts, and a \<^verbatim>\<open>JSONDecodeError\<close> elsewhere.\<close>

definition toy_loads :: "string \<Rightarrow> exc + json" where
  "toy_loads s =
     (if s = ''[]'' then Inr (JArr [])
      else if s = ''3'' then Inr (JInt 3)
      else if s = ''{}'' then Inr (JObj [])
      else Inl (Exc ''JSONDecodeError''))"

text \<open>The bounds of the document a run returns.\<close>

definition produced_bounds ::
  "(exc + 'u vsketch option) \<times> world
     \<Rightarrow> exc + (double \<times> double \<times> double \<times> double) option option" where
  "produced_bounds r = map_sum id (map_option bounds) (produced r)"

section \<open>Properties of find\_unique\_path\<close>

lemma splitext_sketch_svg: "splitext ''sketch.svg'' = (''sketch'', ''.svg'')"
  by code_simp

lemma str_nat_1: "str_nat (Suc 0) = ''1''" by (subst str_nat.simps) (simp add: digit_char_def)
lemma str_nat_2: "str_nat 2 = ''2''" by (subst str_nat.simps) (simp add: digit_char_def)

lemma digit_char_inj: "a < 10 \<Longrightarrow> b < 10 \<Longrightarrow> digit_char a = digit_char b \<Longrightarrow> a = b"
proof -
  assume a: "a < 10" and b: "b < 10" and e: "digit_char a = digit_char b"
  have d: "distinct ''0123456789''" by simp
  have "length ''0123456789'' = 10" by simp
  with a b e d show "a = b"
    unfolding digit_char_def by (metis nth_eq_iff_index_eq)
qed

lemma str_nat_nonempty: "str_nat n \<noteq> []"
  by (subst str_nat.simps) simp

lemma str_nat_inj: "str_nat m = str_nat n \<Longrightarrow> m = n"
proof (induction m arbitrary: n rule: str_nat.induct)
  case (1 m)
  show ?case
  proof (cases "m < 10")
    case True
    then have sm: "str_nat m = [digit_char m]" by (subst str_nat.simps) simp
    show ?thesis
    proof (cases "n < 10")
      case True
      then have "str_nat n = [digit_char n]" by (subst str_nat.simps) simp
      with sm "1.prems" \<open>m < 10\<close> True show ?thesis by (simp add: digit_char_inj)
    next
      case False
      then have "str_nat n = str_nat (n div 10) @ [digit_char (n mod 10)]"
        by (subst str_nat.simps) simp
      with sm "1.prems" have "str_nat (n div 10) = []" by simp
      then show ?thesis by (simp add: str_nat_nonempty)
    qed
  next
    case False
    then have sm: "str_nat m = str_nat (m div 10) @ [digit_char (m mod 10)]"
      by (subst str_nat.simps) simp
    show ?thesis
    proof (cases "n < 10")
      case True
      then have "str_nat n = [digit_char n]" by (subst str_nat.simps) simp
      with sm "1.prems" have "str_nat (m div 10) = []" by simp
      then show ?thesis by (simp add: str_nat_nonempty)
    next
      case nf: False
      then have "str_nat n = str_nat (n div 10) @ [digit_char (n mod 10)]"
        by (subst str_nat.simps) simp
      with sm "1.prems" have e1: "str_nat (m div 10) = str_nat (n div 10)"
        and e2: "digit_char (m mod 10) = digit_char (n mod 10)" by simp_all
      from "1.IH"[OF False e1] have d: "m div 10 = n div 10" .
      from e2 have "m mod 10 = n mod 10" by (simp add: digit_char_inj)
      with d show ?thesis by (metis div_mult_mod_eq)
    qed
  qed
qed

lemma candidate_inj: "candidate d f j = candidate d f k \<Longrightarrow> j = k"
  by (simp add: candidate_def str_nat_inj)

lemma loop_always_first:
  "\<not> path_exists w (Div d (b @ ''_'' @ str_nat k @ e)) \<Longrightarrow>
   (\<forall>j. i \<le> j \<and> j < k \<longrightarrow> path_exists w (Div d (b @ ''_'' @ str_nat j @ e))) \<Longrightarrow> i \<le> k \<Longrightarrow>
   find_unique_loop w d b e True name i = Some (Div d (b @ ''_'' @ str_nat k @ e))"
proof (induction "k - i" arbitrary: i name)
  case 0
  then have "i = k" by simp
  with 0 show ?case by (subst find_unique_loop.simps) simp
next
  case (Suc n)
  then have lt: "i < k" by simp
  with Suc.prems have ex: "path_exists w (Div d (b @ ''_'' @ str_nat i @ e))" by simp
  have "find_unique_loop w d b e True (b @ ''_'' @ str_nat i) (i + 1)
        = Some (Div d (b @ ''_'' @ str_nat k @ e))"
    using Suc.hyps(1)[of "i + 1"] Suc.hyps(2) Suc.prems lt by simp
  with ex show ?case by (subst find_unique_loop.simps) simp
qed

lemma loop_collision_first:
  "\<not> path_exists w (Div d (b @ ''_'' @ str_nat k @ e)) \<Longrightarrow>
   (\<forall>j. i \<le> j \<and> j < k \<longrightarrow> path_exists w (Div d (b @ ''_'' @ str_nat j @ e))) \<Longrightarrow> i \<le> k \<Longrightarrow>
   path_exists w (Div d (name @ e)) \<Longrightarrow>
   find_unique_loop w d b e False name i = Some (Div d (b @ ''_'' @ str_nat k @ e))"
proof (induction "k - i" arbitrary: i name)
  case 0
  then have ik: "i = k" by simp
  have "find_unique_loop w d b e False (b @ ''_'' @ str_nat k) (k + 1)
        = Some (Div d (b @ ''_'' @ str_nat k @ e))"
    using 0 by (subst find_unique_loop.simps) simp
  with 0 ik show ?case by (subst find_unique_loop.simps) simp
next
  case (Suc n)
  then have lt: "i < k" by simp
  with Suc.prems have ex: "path_exists w (Div d ((b @ ''_'' @ str_nat i) @ e))" by simp
  have "find_unique_loop w d b e False (b @ ''_'' @ str_nat i) (i + 1)
        = Some (Div d (b @ ''_'' @ str_nat k @ e))"
    using Suc.hyps(1)[of "i + 1" "b @ ''_'' @ str_nat i"] Suc.hyps(2) Suc.prems(1,2) lt ex
    by simp
  with Suc.prems(4) show ?case by (subst find_unique_loop.simps) simp
qed

lemma loop_collision_free:
  "\<not> path_exists w (Div d (name @ e)) \<Longrightarrow>
   find_unique_loop w d b e False name i = Some (Div d (name @ e))"
  by (subst find_unique_loop.simps) simp

lemma loop_always_here:
  "\<not> path_exists w (Div d (b @ ''_'' @ str_nat i @ e)) \<Longrightarrow>
   find_unique_loop w d b e True name i = Some (Div d (b @ ''_'' @ str_nat i @ e))"
  by (rule loop_always_first) auto

lemma loop_collision_next:
  "path_exists w (Div d (name @ e)) \<Longrightarrow>
   \<not> path_exists w (Div d (b @ ''_'' @ str_nat i @ e)) \<Longrightarrow>
   find_unique_loop w d b e False name i = Some (Div d (b @ ''_'' @ str_nat i @ e))"
  by (rule loop_collision_first) auto

lemma first_free_index:
  assumes "finite {p. path_exists w p \<and> p \<in> range (candidate d f)}"
  shows "\<exists>k. i \<le> k \<and> \<not> path_exists w (candidate d f k) \<and>
             (\<forall>j. i \<le> j \<and> j < k \<longrightarrow> path_exists w (candidate d f j))"
proof -
  let ?S = "{p. path_exists w p \<and> p \<in> range (candidate d f)}"
  have "inj (candidate d f)" by (rule injI) (rule candidate_inj)
  then have "finite (candidate d f -` ?S)" using assms by (rule finite_vimageI[rotated])
  moreover have "candidate d f -` ?S = {k. path_exists w (candidate d f k)}" by auto
  ultimately have fin: "finite {k. path_exists w (candidate d f k)}" by simp
  have "\<exists>k. i \<le> k \<and> \<not> path_exists w (candidate d f k)"
  proof (rule ccontr)
    assume "\<not> ?thesis"
    then have "{i..} \<subseteq> {k. path_exists w (candidate d f k)}" by auto
    with fin have "finite {i..}" by (rule rev_finite_subset)
    then show False by (simp add: infinite_Ici)
  qed
  then obtain k0 where k0: "i \<le> k0 \<and> \<not> path_exists w (candidate d f k0)" by blast
  define k where "k = (LEAST k. i \<le> k \<and> \<not> path_exists w (candidate d f k))"
  have a: "i \<le> k \<and> \<not> path_exists w (candidate d f k)"
    unfolding k_def by (rule LeastI[of _ k0]) (rule k0)
  have "\<And>j. i \<le> j \<Longrightarrow> j < k \<Longrightarrow> path_exists w (candidate d f j)"
  proof (rule ccontr)
    fix j assume "i \<le> j" "j < k" "\<not> path_exists w (candidate d f j)"
    then have "k \<le> j" unfolding k_def by (intro Least_le) simp
    with \<open>j < k\<close> show False by simp
  qed
  with a show ?thesis by blast
qed

text \<open>
  Claim C9. Whenever only finitely many of the suffixed candidate paths
  \<^verbatim>\<open>base_k.ext\<close> exist, \<^verbatim>\<open>find_unique_path\<close> returns, in both numbering modes, and
  the path it returns does not exist at the time of the call.
\<close>

theorem find_unique_path_terminates:
  assumes "finite {p. path_exists w p \<and> p \<in> range (candidate dir_path filename)}"
  shows "\<exists>p. find_unique_path w filename dir_path always_number = Some p \<and>
             \<not> path_exists w p"
proof -
  obtain b e where se: "splitext filename = (b, e)" by (cases "splitext filename")
  then have cand: "\<And>k. candidate dir_path filename k = Div dir_path (b @ ''_'' @ str_nat k @ e)"
    by (simp add: candidate_def)
  show ?thesis
  proof (cases always_number)
    case True
    from first_free_index[OF assms, of 1] obtain k where
      k: "1 \<le> k" "\<not> path_exists w (candidate dir_path filename k)"
         "\<forall>j. 1 \<le> j \<and> j < k \<longrightarrow> path_exists w (candidate dir_path filename j)" by blast
    have "find_unique_loop w dir_path b e True b 1 = Some (candidate dir_path filename k)"
      using k loop_always_first[of w dir_path b k e 1 b] by (simp add: cand)
    with True se k(2) show ?thesis by (simp add: find_unique_path_def)
  next
    case False
    show ?thesis
    proof (cases "path_exists w (Div dir_path (b @ e))")
      case ex: True
      from first_free_index[OF assms, of 2] obtain k where
        k: "2 \<le> k" "\<not> path_exists w (candidate dir_path filename k)"
           "\<forall>j. 2 \<le> j \<and> j < k \<longrightarrow> path_exists w (candidate dir_path filename j)" by blast
      have "find_unique_loop w dir_path b e False b 2 = Some (candidate dir_path filename k)"
        using k ex loop_collision_first[of w dir_path b k e 2 b] by (simp add: cand)
      with False se k(2) show ?thesis by (simp add: find_unique_path_def)
    next
      case nex: False
      then have "find_unique_loop w dir_path b e False b 2 = Some (Div dir_path (b @ e))"
        by (rule loop_collision_free)
      with False se nex show ?thesis by (simp add: find_unique_path_def)
    qed
  qed
qed

lemma home_world_exists:
  "path_exists home_world p =
     (p = Path ''/home/u'' \<or> p = Path ''out'' \<or> p = Path ''empty'' \<or>
      p = Parent (Div (Path ''out'') ''sketch.py'') \<or>
      p = Div (Path ''out'') ''sketch.svg'' \<or> p = Div (Path ''out'') ''sketch.py'' \<or>
      p = Div (Path ''out'') ''params.json'')"
  by (auto simp: path_exists_def home_world_def)

theorem find_unique_path_terminates_witness:
  "finite {p. path_exists home_world p \<and> p \<in> range (candidate (Path ''out'') ''sketch.svg'')} \<and>
   (\<exists>p. find_unique_path home_world ''sketch.svg'' (Path ''out'') False = Some p \<and>
        \<not> path_exists home_world p)"
proof -
  have "{p. path_exists home_world p \<and> p \<in> range (candidate (Path ''out'') ''sketch.svg'')}
        \<subseteq> {Path ''/home/u'', Path ''out'', Path ''empty'',
            Parent (Div (Path ''out'') ''sketch.py''), Div (Path ''out'') ''sketch.svg'',
            Div (Path ''out'') ''sketch.py'', Div (Path ''out'') ''params.json''}"
    by (auto simp: home_world_exists)
  then have fin: "finite {p. path_exists home_world p \<and> p \<in> range (candidate (Path ''out'') ''sketch.svg'')}"
    by (rule finite_subset) simp
  from fin find_unique_path_terminates[OF fin, of False] show ?thesis by simp
qed

lemma find_unique_path_always:
  assumes "1 \<le> k" and "\<not> path_exists w (candidate d f k)"
    and "\<forall>j. 1 \<le> j \<and> j < k \<longrightarrow> path_exists w (candidate d f j)"
  shows "find_unique_path w f d True = Some (candidate d f k)"
proof -
  obtain b e where se: "splitext f = (b, e)" by (cases "splitext f")
  then have cand: "\<And>j. candidate d f j = Div d (b @ ''_'' @ str_nat j @ e)"
    by (simp add: candidate_def)
  have "find_unique_loop w d b e True b 1 = Some (candidate d f k)"
    using assms loop_always_first[of w d b k e 1 b] by (simp add: cand)
  with se show ?thesis by (simp add: find_unique_path_def)
qed

lemma find_unique_path_collision:
  assumes "path_exists w (Div d (fst (splitext f) @ snd (splitext f)))"
    and "2 \<le> k" and "\<not> path_exists w (candidate d f k)"
    and "\<forall>j. 2 \<le> j \<and> j < k \<longrightarrow> path_exists w (candidate d f j)"
  shows "find_unique_path w f d False = Some (candidate d f k)"
proof -
  obtain b e where se: "splitext f = (b, e)" by (cases "splitext f")
  then have cand: "\<And>j. candidate d f j = Div d (b @ ''_'' @ str_nat j @ e)"
    by (simp add: candidate_def)
  have "find_unique_loop w d b e False b 2 = Some (candidate d f k)"
    using assms se loop_collision_first[of w d b k e 2 b] by (simp add: cand)
  with se show ?thesis by (simp add: find_unique_path_def)
qed

lemma find_unique_path_unsuffixed:
  assumes "\<not> path_exists w (Div d (fst (splitext f) @ snd (splitext f)))"
  shows "find_unique_path w f d False = Some (Div d (fst (splitext f) @ snd (splitext f)))"
proof -
  obtain b e where se: "splitext f = (b, e)" by (cases "splitext f")
  with assms have "find_unique_loop w d b e False b 2 = Some (Div d (b @ e))"
    using loop_collision_free[of w d b e b 2] by simp
  with se show ?thesis by (simp add: find_unique_path_def)
qed

lemma no_index_between: "(\<forall>j::nat. k \<le> j \<and> j < k \<longrightarrow> P j) = True"
  by auto

lemma candidate_sketch_svg:
  "candidate d ''sketch.svg'' (Suc 0) = Div d ''sketch_1.svg''"
  "candidate d ''sketch.svg'' 2 = Div d ''sketch_2.svg''"
  by (simp_all add: candidate_def splitext_sketch_svg str_nat_1 str_nat_2)

text \<open>
  Claim C5. For \<^verbatim>\<open>find_unique_path("sketch.svg", dir)\<close>: when \<^verbatim>\<open>dir/sketch.svg\<close>
  does not exist the collision-only mode returns it unsuffixed; when
  \<^verbatim>\<open>dir/sketch_1.svg\<close> does not exist the always-numbered mode returns it; when
  \<^verbatim>\<open>dir/sketch.svg\<close> exists and \<^verbatim>\<open>dir/sketch_2.svg\<close> does not, the collision-only
  mode returns \<^verbatim>\<open>dir/sketch_2.svg\<close>. For every file name: the always-numbered mode
  returns the candidate with the least suffix from 1 on that does not exist, so the
  first candidate carries a suffix; the collision-only mode returns the unsuffixed name
  when it does not exist, and otherwise the candidate with the least suffix from 2 on
  that does not exist.
\<close>

theorem find_unique_path_numbering:
  "(\<not> path_exists w (Div d ''sketch.svg'') \<longrightarrow>
      find_unique_path w ''sketch.svg'' d False = Some (Div d ''sketch.svg'')) \<and>
   (\<not> path_exists w (Div d ''sketch_1.svg'') \<longrightarrow>
      find_unique_path w ''sketch.svg'' d True = Some (Div d ''sketch_1.svg'')) \<and>
   (path_exists w (Div d ''sketch.svg'') \<and> \<not> path_exists w (Div d ''sketch_2.svg'') \<longrightarrow>
      find_unique_path w ''sketch.svg'' d False = Some (Div d ''sketch_2.svg'')) \<and>
   (1 \<le> k \<and> \<not> path_exists w (candidate d f k) \<and>
    (\<forall>j. 1 \<le> j \<and> j < k \<longrightarrow> path_exists w (candidate d f j)) \<longrightarrow>
      find_unique_path w f d True = Some (candidate d f k)) \<and>
   (\<not> path_exists w (Div d (fst (splitext f) @ snd (splitext f))) \<longrightarrow>
      find_unique_path w f d False = Some (Div d (fst (splitext f) @ snd (splitext f)))) \<and>
   (path_exists w (Div d (fst (splitext f) @ snd (splitext f))) \<and>
    2 \<le> k \<and> \<not> path_exists w (candidate d f k) \<and>
    (\<forall>j. 2 \<le> j \<and> j < k \<longrightarrow> path_exists w (candidate d f j)) \<longrightarrow>
      find_unique_path w f d False = Some (candidate d f k))"
proof (intro conjI impI)
  assume "\<not> path_exists w (Div d ''sketch.svg'')"
  then show "find_unique_path w ''sketch.svg'' d False = Some (Div d ''sketch.svg'')"
    using find_unique_path_unsuffixed[of w d "''sketch.svg''"]
    by (simp add: splitext_sketch_svg)
next
  assume "\<not> path_exists w (Div d ''sketch_1.svg'')"
  then show "find_unique_path w ''sketch.svg'' d True = Some (Div d ''sketch_1.svg'')"
    using find_unique_path_always[of 1 w d "''sketch.svg''"]
    by (simp add: candidate_sketch_svg no_index_between)
next
  assume "path_exists w (Div d ''sketch.svg'') \<and> \<not> path_exists w (Div d ''sketch_2.svg'')"
  then show "find_unique_path w ''sketch.svg'' d False = Some (Div d ''sketch_2.svg'')"
    using find_unique_path_collision[of w d "''sketch.svg''" 2]
    by (simp add: candidate_sketch_svg splitext_sketch_svg no_index_between)
next
  assume "1 \<le> k \<and> \<not> path_exists w (candidate d f k) \<and>
    (\<forall>j. 1 \<le> j \<and> j < k \<longrightarrow> path_exists w (candidate d f j))"
  then show "find_unique_path w f d True = Some (candidate d f k)"
    by (simp add: find_unique_path_always)
next
  assume "\<not> path_exists w (Div d (fst (splitext f) @ snd (splitext f)))"
  then show "find_unique_path w f d False = Some (Div d (fst (splitext f) @ snd (splitext f)))"
    by (rule find_unique_path_unsuffixed)
next
  assume "path_exists w (Div d (fst (splitext f) @ snd (splitext f))) \<and>
    2 \<le> k \<and> \<not> path_exists w (candidate d f k) \<and>
    (\<forall>j. 2 \<le> j \<and> j < k \<longrightarrow> path_exists w (candidate d f j))"
  then show "find_unique_path w f d False = Some (candidate d f k)"
    by (simp add: find_unique_path_collision)
qed

theorem find_unique_path_numbering_witness:
  "\<not> path_exists home_world (Div (Path ''empty'') ''sketch.svg'') \<and>
   find_unique_path home_world ''sketch.svg'' (Path ''empty'') False
     = Some (Div (Path ''empty'') ''sketch.svg'') \<and>
   \<not> path_exists home_world (Div (Path ''empty'') ''sketch_1.svg'') \<and>
   find_unique_path home_world ''sketch.svg'' (Path ''empty'') True
     = Some (Div (Path ''empty'') ''sketch_1.svg'') \<and>
   path_exists home_world (Div (Path ''out'') ''sketch.svg'') \<and>
   \<not> path_exists home_world (Div (Path ''out'') ''sketch_2.svg'') \<and>
   find_unique_path home_world ''sketch.svg'' (Path ''out'') False
     = Some (Div (Path ''out'') ''sketch_2.svg'') \<and>
   find_unique_path home_world ''sketch.svg'' (Path ''out'') True
     = Some (candidate (Path ''out'') ''sketch.svg'' 1) \<and>
   find_unique_path home_world ''sketch.svg'' (Path ''out'') False
     = Some (candidate (Path ''out'') ''sketch.svg'' 2)"
  using find_unique_path_numbering[of home_world "Path ''empty''" 1 "''sketch.svg''"]
        find_unique_path_numbering[of home_world "Path ''out''" 1 "''sketch.svg''"]
        find_unique_path_numbering[of home_world "Path ''out''" 2 "''sketch.svg''"]
  by (simp add: home_world_exists candidate_sketch_svg splitext_sketch_svg no_index_between)

section \<open>Properties of the float arithmetic\<close>

text \<open>
  Rounding is monotone and odd, it leaves the integers below \<open>2 ^ 53\<close> as they are,
  and it takes an integer between \<open>2 ^ 53\<close> and \<open>2 ^ 54\<close> to the nearest even
  integer; so the bounds of a document translated by finite offsets are the translated
  bounds.
\<close>

lemma rhe_floor: "\<lfloor>q\<rfloor> \<le> round_half_even q \<and> round_half_even q \<le> \<lfloor>q\<rfloor> + 1"
  by (simp add: round_half_even_def)

lemma rhe_of_int: "round_half_even (of_int n) = n"
  by (simp add: round_half_even_def)

lemma rhe_ge: "of_int n \<le> q \<Longrightarrow> n \<le> round_half_even q"
proof -
  assume "of_int n \<le> q"
  then have "n \<le> \<lfloor>q\<rfloor>" by (simp add: le_floor_iff)
  with rhe_floor[of q] show ?thesis by linarith
qed

lemma rhe_le: "q \<le> of_int n \<Longrightarrow> round_half_even q \<le> n"
proof (cases "q = of_int n")
  case True
  then show ?thesis by (simp add: rhe_of_int)
next
  case False
  assume "q \<le> of_int n"
  with False have "q < of_int n" by simp
  then have "\<lfloor>q\<rfloor> < n" by (simp add: floor_less_iff)
  with rhe_floor[of q] show ?thesis by linarith
qed

lemma rhe_mono: "q \<le> q' \<Longrightarrow> round_half_even q \<le> round_half_even q'"
proof -
  assume a: "q \<le> q'"
  then have f: "\<lfloor>q\<rfloor> \<le> \<lfloor>q'\<rfloor>" by (rule floor_mono)
  show ?thesis
  proof (cases "\<lfloor>q\<rfloor> = \<lfloor>q'\<rfloor>")
    case True
    with a show ?thesis by (auto simp: round_half_even_def)
  next
    case False
    with f have "\<lfloor>q\<rfloor> + 1 \<le> \<lfloor>q'\<rfloor>" by simp
    with rhe_floor[of q] rhe_floor[of q'] show ?thesis by linarith
  qed
qed

lemma rhe_minus: "round_half_even (- q) = - round_half_even q"
proof (cases "q = of_int \<lfloor>q\<rfloor>")
  case True
  then obtain n where "q = of_int n" ..
  then have "round_half_even (- q) = - n" "round_half_even q = n"
    using rhe_of_int[of "- n"] rhe_of_int[of n] by simp_all
  then show ?thesis by simp
next
  case False
  define f where "f = \<lfloor>q\<rfloor>"
  define d where "d = q - of_int f"
  have "of_int f \<le> q" "q < of_int f + 1" unfolding f_def by linarith+
  moreover from False have "q \<noteq> of_int f" by (simp add: f_def)
  ultimately have d: "0 < d" "d < 1" unfolding d_def by linarith+
  have q: "q = of_int f + d" by (simp add: d_def)
  have "\<lfloor>- q\<rfloor> = - f - 1"
    by (rule floor_unique) (use d q in simp_all)
  then have m: "\<lfloor>- q\<rfloor> = - f - 1" "- q - of_int \<lfloor>- q\<rfloor> = 1 - d"
    using q by simp_all
  have p: "\<lfloor>q\<rfloor> = f" "q - of_int \<lfloor>q\<rfloor> = d" by (simp_all add: f_def d_def)
  have e: "even (- f - 1) = odd f" by simp
  consider "d < 1 / 2" | "1 / 2 < d" | "d = 1 / 2" "even f" | "d = 1 / 2" "odd f" by fastforce
  then show ?thesis
  proof cases
    case 1
    then show ?thesis unfolding round_half_even_def m p by simp
  next
    case 2
    then show ?thesis unfolding round_half_even_def m p by simp
  next
    case 3
    then show ?thesis unfolding round_half_even_def m p e by simp
  next
    case 4
    then show ?thesis unfolding round_half_even_def m p e by simp
  qed
qed

lemma bit_length_upper:
  assumes "0 \<le> x"
  shows "x * 2 ^ emin < 2 ^ bit_length x"
proof -
  define n where "n = \<lfloor>\<bar>x\<bar> * 2 ^ emin\<rfloor>"
  have s: "x * 2 ^ emin < of_int n + 1" unfolding n_def using assms by simp
  have n0: "0 \<le> n" unfolding n_def by simp
  have l: "bit_length x = nat (bitlen n)" by (simp add: bit_length_def n_def)
  show ?thesis
  proof (cases "0 < n")
    case True
    from bitlen_bounds[OF True] have "n + 1 \<le> 2 ^ nat (bitlen n)" by simp
    then have "real_of_int (n + 1) \<le> real_of_int (2 ^ nat (bitlen n))"
      by (rule of_int_le_iff[THEN iffD2])
    then have "of_int n + 1 \<le> (2::real) ^ nat (bitlen n)" by simp
    with s show ?thesis unfolding l by linarith
  next
    case False
    with n0 have "n = 0" by simp
    with s show ?thesis unfolding l by simp
  qed
qed

lemma bit_length_lower:
  assumes "0 \<le> x" and "0 < bit_length x"
  shows "2 ^ (bit_length x - 1) \<le> x * 2 ^ emin"
proof -
  define n where "n = \<lfloor>\<bar>x\<bar> * 2 ^ emin\<rfloor>"
  have l: "bit_length x = nat (bitlen n)" by (simp add: bit_length_def n_def)
  have s: "of_int n \<le> x * 2 ^ emin" unfolding n_def using assms(1) by simp
  from assms(2) have "0 < bitlen n" unfolding l by simp
  then have p: "0 < n" using bitlen_eq_zero_iff[of n] by (cases "0 < n") simp_all
  from bitlen_bounds[OF p] have "2 ^ nat (bitlen n - 1) \<le> n" by simp
  then have "real_of_int (2 ^ nat (bitlen n - 1)) \<le> real_of_int n"
    by (rule of_int_le_iff[THEN iffD2])
  then have "(2::real) ^ nat (bitlen n - 1) \<le> of_int n" by simp
  moreover have "nat (bitlen n - 1) = bit_length x - 1"
    unfolding l by (simp add: nat_diff_distrib bitlen_nonneg)
  ultimately have "(2::real) ^ (bit_length x - 1) \<le> of_int n" by (simp only:)
  then show ?thesis using s by (rule order_trans)
qed

lemma bit_length_mono:
  assumes "0 \<le> x" and "x \<le> y"
  shows "bit_length x \<le> bit_length y"
proof (rule ccontr)
  assume "\<not> bit_length x \<le> bit_length y"
  then have l: "bit_length y \<le> bit_length x - 1" and p: "0 < bit_length x" by simp_all
  from assms have y: "0 \<le> y" by simp
  have "x * 2 ^ emin \<le> y * 2 ^ emin" using assms by simp
  also have "\<dots> < 2 ^ bit_length y" using y by (rule bit_length_upper)
  also have "\<dots> \<le> (2::real) ^ (bit_length x - 1)" using l by simp
  also have "\<dots> \<le> x * 2 ^ emin" using assms(1) p by (rule bit_length_lower)
  finally show False by simp
qed

lemma round_nearest_minus: "round_nearest (- x) = - round_nearest x"
  by (simp add: round_nearest_def ulp_shift_def bit_length_def rhe_minus)

lemma round_nearest_nonneg: "0 \<le> x \<Longrightarrow> 0 \<le> round_nearest x"
  using rhe_ge[of 0 "x * 2 ^ emin / 2 ^ ulp_shift x"]
  by (simp add: round_nearest_def)

lemma scaled_le:
  "of_int (round_half_even (s / 2 ^ k)) * 2 ^ k \<le> (2::real) ^ n" if "s \<le> 2 ^ n" and "k \<le> n"
proof -
  have "s / 2 ^ k \<le> 2 ^ n / 2 ^ k" using that(1) by (simp add: divide_right_mono)
  also have "\<dots> = (2::real) ^ (n - k)" using that(2) by (simp add: power_diff)
  also have "\<dots> = of_int (2 ^ (n - k))" by simp
  finally have "round_half_even (s / 2 ^ k) \<le> 2 ^ (n - k)" by (rule rhe_le)
  then have "real_of_int (round_half_even (s / 2 ^ k)) \<le> real_of_int (2 ^ (n - k))"
    by (rule of_int_le_iff[THEN iffD2])
  then have "real_of_int (round_half_even (s / 2 ^ k)) * 2 ^ k \<le> 2 ^ (n - k) * 2 ^ k"
    by (simp add: mult_right_mono)
  also have "\<dots> = (2::real) ^ n" using that(2) by (simp add: power_add[symmetric])
  finally show ?thesis .
qed

lemma scaled_ge:
  "(2::real) ^ n \<le> of_int (round_half_even (s / 2 ^ k)) * 2 ^ k" if "2 ^ n \<le> s" and "k \<le> n"
proof -
  have "of_int (2 ^ (n - k)) = (2::real) ^ (n - k)" by simp
  also have "\<dots> = 2 ^ n / 2 ^ k" using that(2) by (simp add: power_diff)
  also have "\<dots> \<le> s / 2 ^ k" using that(1) by (simp add: divide_right_mono)
  finally have "2 ^ (n - k) \<le> round_half_even (s / 2 ^ k)" by (rule rhe_ge)
  then have "real_of_int (2 ^ (n - k)) \<le> real_of_int (round_half_even (s / 2 ^ k))"
    by (rule of_int_le_iff[THEN iffD2])
  then have "2 ^ (n - k) * 2 ^ k \<le> real_of_int (round_half_even (s / 2 ^ k)) * 2 ^ k"
    by (simp add: mult_right_mono)
  moreover have "2 ^ (n - k) * 2 ^ k = (2::real) ^ n" using that(2) by (simp add: power_add[symmetric])
  ultimately show ?thesis by simp
qed

lemma round_nearest_mono_nonneg:
  assumes "0 \<le> x" and "x \<le> y"
  shows "round_nearest x \<le> round_nearest y"
proof -
  from assms have y: "0 \<le> y" by simp
  have k: "ulp_shift x \<le> ulp_shift y"
    using bit_length_mono[OF assms] by (simp add: ulp_shift_def)
  show ?thesis
  proof (cases "ulp_shift x = ulp_shift y")
    case True
    have "x * 2 ^ emin / 2 ^ ulp_shift y \<le> y * 2 ^ emin / 2 ^ ulp_shift y"
      using assms(2) by (simp add: divide_right_mono)
    then have "round_half_even (x * 2 ^ emin / 2 ^ ulp_shift y)
                 \<le> round_half_even (y * 2 ^ emin / 2 ^ ulp_shift y)" by (rule rhe_mono)
    then have "real_of_int (round_half_even (x * 2 ^ emin / 2 ^ ulp_shift y))
                 \<le> real_of_int (round_half_even (y * 2 ^ emin / 2 ^ ulp_shift y))"
      by (rule of_int_le_iff[THEN iffD2])
    then show ?thesis
      by (simp add: round_nearest_def True divide_right_mono mult_right_mono)
  next
    case False
    with k have lt: "ulp_shift x < ulp_shift y" by simp
    then have ly: "53 < bit_length y" and lxy: "bit_length x \<le> bit_length y - 1"
      by (simp_all add: ulp_shift_def)
    have "of_int (round_half_even (x * 2 ^ emin / 2 ^ ulp_shift x)) * 2 ^ ulp_shift x
            \<le> (2::real) ^ bit_length x"
      using bit_length_upper[OF assms(1)] by (intro scaled_le) (simp_all add: ulp_shift_def)
    also have "\<dots> \<le> (2::real) ^ (bit_length y - 1)" using lxy by simp
    also have "\<dots> \<le> of_int (round_half_even (y * 2 ^ emin / 2 ^ ulp_shift y)) * 2 ^ ulp_shift y"
      using bit_length_lower[OF y] ly by (intro scaled_ge) (simp_all add: ulp_shift_def)
    finally show ?thesis
      by (simp add: round_nearest_def divide_right_mono)
  qed
qed

lemma round_nearest_mono: "x \<le> y \<Longrightarrow> round_nearest x \<le> round_nearest y"
proof -
  assume a: "x \<le> y"
  consider "0 \<le> x" | "x < 0" "0 \<le> y" | "y < 0" using a by linarith
  then show ?thesis
  proof cases
    case 1
    then show ?thesis using a by (rule round_nearest_mono_nonneg)
  next
    case 2
    then have "0 \<le> round_nearest (- x)" "0 \<le> round_nearest y"
      by (simp_all add: round_nearest_nonneg)
    then show ?thesis by (simp add: round_nearest_minus)
  next
    case 3
    then have "round_nearest (- y) \<le> round_nearest (- x)"
      using a by (intro round_nearest_mono_nonneg) simp_all
    then show ?thesis by (simp add: round_nearest_minus)
  qed
qed

lemma bit_length_of_int:
  assumes "m \<noteq> 0"
  shows "bit_length (of_int m) = nat (bitlen \<bar>m\<bar>) + emin"
proof -
  have "\<bar>real_of_int m\<bar> * 2 ^ emin = of_int (\<bar>m\<bar> * 2 ^ emin)" by simp
  then have "\<lfloor>\<bar>real_of_int m\<bar> * 2 ^ emin\<rfloor> = \<bar>m\<bar> * 2 ^ emin"
    by (simp only: floor_of_int)
  moreover from assms have "bitlen (\<bar>m\<bar> * 2 ^ emin) = bitlen \<bar>m\<bar> + int emin" by simp
  ultimately show ?thesis
    by (simp add: bit_length_def nat_add_distrib bitlen_nonneg)
qed

lemma round_nearest_shift:
  assumes "ulp_shift x \<le> emin"
    and "x * 2 ^ (emin - ulp_shift x) = of_int n"
  shows "round_nearest x = x"
proof -
  define k where "k = ulp_shift x"
  have p: "(2::real) ^ emin = 2 ^ (emin - k) * 2 ^ k"
    using assms(1) by (simp add: k_def power_add[symmetric])
  have "x * 2 ^ emin / 2 ^ k = x * 2 ^ (emin - k)" by (simp add: p)
  also have "\<dots> = of_int n" using assms(2) by (simp add: k_def)
  finally have "round_half_even (x * 2 ^ emin / 2 ^ k) = n" by (simp only: rhe_of_int)
  then have "round_nearest x = of_int n * 2 ^ k / 2 ^ emin"
    by (simp add: round_nearest_def k_def)
  also have "\<dots> = x * (2 ^ (emin - k) * 2 ^ k) / 2 ^ emin"
    using assms(2) by (simp add: k_def)
  also have "\<dots> = x" by (simp add: p[symmetric])
  finally show ?thesis .
qed

lemma round_nearest_int:
  assumes "\<bar>m\<bar> < 2 ^ 53"
  shows "round_nearest (of_int m) = of_int m"
proof (cases "m = 0")
  case True
  then show ?thesis by (simp add: round_nearest_def round_half_even_def)
next
  case False
  from assms have "bitlen \<bar>m\<bar> \<le> 53" by (simp add: bitlen_le_iff_power)
  then have k: "ulp_shift (of_int m) \<le> emin"
    by (simp add: ulp_shift_def bit_length_of_int[OF False])
  have "real_of_int m * 2 ^ (emin - ulp_shift (of_int m))
          = of_int (m * 2 ^ (emin - ulp_shift (of_int m)))" by simp
  with k show ?thesis by (rule round_nearest_shift)
qed


lemma emax_large: "(2::real) ^ 54 < 2 ^ emax"
  by (simp add: emax_def)

lemma fl_finite: "\<bar>round_nearest x\<bar> < 2 ^ emax \<Longrightarrow> fl x = Dbl (round_nearest x)"
  by (simp add: fl_def abs_less_iff)

lemma fl_int:
  assumes "\<bar>m\<bar> < 2 ^ 53"
  shows "fl (of_int m) = Dbl (of_int m)"
proof -
  have r: "round_nearest (of_int m) = of_int m" using assms by (rule round_nearest_int)
  from assms have "real_of_int \<bar>m\<bar> < real_of_int (2 ^ 53)" by (rule of_int_less_iff[THEN iffD2])
  then have "\<bar>real_of_int m\<bar> < 2 ^ 54" by simp
  with emax_large have "\<bar>real_of_int m\<bar> < 2 ^ emax" by linarith
  then have "\<bar>round_nearest (of_int m)\<bar> < 2 ^ emax" by (simp only: r)
  then have "fl (of_int m) = Dbl (round_nearest (of_int m))" by (rule fl_finite)
  then show ?thesis by (simp only: r)
qed

lemma fl_not_NaN: "fl x \<noteq> NaN"
  by (simp add: fl_def)

lemma fl_mono: "x \<le> y \<Longrightarrow> dle (fl x) (fl y)"
  using round_nearest_mono[of x y] by (auto simp: fl_def)

lemma dle_total: "a \<noteq> NaN \<Longrightarrow> b \<noteq> NaN \<Longrightarrow> \<not> dle a b \<Longrightarrow> dle b a"
  by (cases a; cases b) auto

lemma dle_antisym: "dle a b \<Longrightarrow> dle b a \<Longrightarrow> a = b"
  by (cases a; cases b) auto

lemma dle_not_NaN: "dle a b \<Longrightarrow> a \<noteq> NaN \<and> b \<noteq> NaN"
  by (cases a; cases b) auto

lemma fadd_NaN: "fadd NaN b = NaN" "fadd a NaN = NaN"
  by (cases a; simp)+

lemma fadd_finite_not_NaN: "a \<noteq> NaN \<Longrightarrow> fadd a (Dbl t) \<noteq> NaN"
  by (cases a) (simp_all add: fl_not_NaN)

lemma fadd_mono: "dle a b \<Longrightarrow> dle (fadd a (Dbl t)) (fadd b (Dbl t))"
proof (cases a; cases b)
  fix x y assume "a = Dbl x" "b = Dbl y" "dle a b"
  then show ?thesis by (simp add: fl_mono)
next
  fix x assume a: "a = Dbl x" "b = PInf"
  show ?thesis unfolding a using fl_not_NaN[of "x + t"] by (cases "fl (x + t)") simp_all
next
  fix y assume a: "a = NInf" "b = Dbl y"
  show ?thesis unfolding a using fl_not_NaN[of "y + t"] by (cases "fl (y + t)") simp_all
qed auto

lemma dmin_fadd:
  "dmin (fadd a (Dbl t)) (fadd b (Dbl t)) = fadd (dmin a b) (Dbl t)"
proof (cases "a = NaN \<or> b = NaN")
  case True
  then show ?thesis by (auto simp: dmin_def)
next
  case False
  then have n: "fadd a (Dbl t) \<noteq> NaN" "fadd b (Dbl t) \<noteq> NaN"
    by (simp_all add: fadd_finite_not_NaN)
  show ?thesis
  proof (cases "dle a b")
    case True
    then have "dle (fadd a (Dbl t)) (fadd b (Dbl t))" by (rule fadd_mono)
    with True False n show ?thesis by (simp add: dmin_def)
  next
    case nle: False
    with False have "dle b a" by (simp add: dle_total)
    then have m: "dle (fadd b (Dbl t)) (fadd a (Dbl t))" by (rule fadd_mono)
    show ?thesis
    proof (cases "dle (fadd a (Dbl t)) (fadd b (Dbl t))")
      case True
      with m have "fadd a (Dbl t) = fadd b (Dbl t)" by (simp add: dle_antisym)
      with nle False n show ?thesis by (simp add: dmin_def)
    next
      case False
      with nle \<open>\<not> (a = NaN \<or> b = NaN)\<close> n show ?thesis by (simp add: dmin_def)
    qed
  qed
qed

lemma dmax_fadd:
  "dmax (fadd a (Dbl t)) (fadd b (Dbl t)) = fadd (dmax a b) (Dbl t)"
proof (cases "a = NaN \<or> b = NaN")
  case True
  then show ?thesis by (auto simp: dmax_def)
next
  case False
  then have n: "fadd a (Dbl t) \<noteq> NaN" "fadd b (Dbl t) \<noteq> NaN"
    by (simp_all add: fadd_finite_not_NaN)
  show ?thesis
  proof (cases "dle a b")
    case True
    then have "dle (fadd a (Dbl t)) (fadd b (Dbl t))" by (rule fadd_mono)
    with True False n show ?thesis by (simp add: dmax_def)
  next
    case nle: False
    with False have "dle b a" by (simp add: dle_total)
    then have m: "dle (fadd b (Dbl t)) (fadd a (Dbl t))" by (rule fadd_mono)
    show ?thesis
    proof (cases "dle (fadd a (Dbl t)) (fadd b (Dbl t))")
      case True
      with m have "fadd a (Dbl t) = fadd b (Dbl t)" by (simp add: dle_antisym)
      with nle False n show ?thesis by (simp add: dmax_def)
    next
      case False
      with nle \<open>\<not> (a = NaN \<or> b = NaN)\<close> n show ?thesis by (simp add: dmax_def)
    qed
  qed
qed

lemma fold_dmin_fadd:
  "fold dmin (map (\<lambda>a. fadd a (Dbl t)) xs) (fadd x (Dbl t)) = fadd (fold dmin xs x) (Dbl t)"
  by (induction xs arbitrary: x) (simp_all add: dmin_fadd)

lemma fold_dmax_fadd:
  "fold dmax (map (\<lambda>a. fadd a (Dbl t)) xs) (fadd x (Dbl t)) = fadd (fold dmax xs x) (Dbl t)"
  by (induction xs arbitrary: x) (simp_all add: dmax_fadd)

lemma bounds_translate:
  "bounds (translate (Dbl tx) (Dbl ty) d) =
     map_option (\<lambda>(a, b, c, e). (fadd a (Dbl tx), fadd b (Dbl ty), fadd c (Dbl tx), fadd e (Dbl ty)))
       (bounds d)"
proof -
  have h: "concat (geometry (translate (Dbl tx) (Dbl ty) d))
             = map (\<lambda>(x, y). (fadd x (Dbl tx), fadd y (Dbl ty))) (concat (geometry d))"
    by (simp add: translate_def map_concat)
  show ?thesis
  proof (cases "concat (geometry d)")
    case Nil
    show ?thesis unfolding bounds_def h Nil by (simp only: list.map list.case option.map)
  next
    case (Cons p ps)
    obtain px py where p: "p = (px, py)" by (cases p)
    have f: "map fst (map (\<lambda>(x, y). (fadd x (Dbl tx), fadd y (Dbl ty))) ps)
               = map (\<lambda>a. fadd a (Dbl tx)) (map fst ps)"
      and s: "map snd (map (\<lambda>(x, y). (fadd x (Dbl tx), fadd y (Dbl ty))) ps)
               = map (\<lambda>a. fadd a (Dbl ty)) (map snd ps)"
      by (simp_all add: case_prod_beta)
    show ?thesis
      unfolding bounds_def h Cons p
      by (simp only: list.map list.case prod.case fst_conv snd_conv f s fold_dmin_fadd
          fold_dmax_fadd option.map)
  qed
qed

lemma fl_numeral [simp]:
  "numeral n < (2::int) ^ 53 \<Longrightarrow> fl (numeral n) = Dbl (numeral n)"
  using fl_int[of "numeral n"] by simp

lemma fl_neg_numeral [simp]:
  "numeral n < (2::int) ^ 53 \<Longrightarrow> fl (- numeral n) = Dbl (- numeral n)"
  using fl_int[of "- numeral n"] by simp

lemma fl_zero [simp]: "fl 0 = Dbl 0"
  using fl_int[of 0] by simp

lemma fl_one [simp]: "fl 1 = Dbl 1"
  using fl_int[of 1] by simp

lemma fl_neg_one [simp]: "fl (- 1) = Dbl (- 1)"
  using fl_int[of "- 1"] by simp





section \<open>Properties of the centering step\<close>


lemma centering_translates:
  "centered vsk \<Longrightarrow> page_size (document vsk) = Some (width, height) \<Longrightarrow>
   bounds (document vsk) = Some (b0, b1, b2, b3) \<Longrightarrow>
   centering vsk =
     vsk\<lparr>document := translate (center_offset width b0 b2) (center_offset height b1 b3)
                        (document vsk)\<rparr>"
  by (simp add: centering_def)

lemma execute_sketch_centers:
  assumes "working_directory (sketch_dir w c) (sketch_scope (prog c) seed fin) w
             = (Inr (Some vsk), w1)"
  shows "execute_sketch prog (Some c) seed fin w = (Inr (Some (centering vsk)), w1)"
proof -
  from assms have "os_getcwd w = Inr (cwd w)"
    by (auto simp: working_directory_def os_getcwd_def split: if_splits)
  with assms show ?thesis by (simp add: execute_sketch_def sketch_dir_def)
qed

lemma rect_scope:
  "working_directory (sketch_dir home_world 5) (sketch_scope rect_sketch None False) home_world
   = (Inr (Some (add_line [(Dbl 10, Dbl 10), (Dbl 30, Dbl 10), (Dbl 30, Dbl 50), (Dbl 10, Dbl 50), (Dbl 10, Dbl 10)] blank_sketch)),
      home_world)"
  by (simp add: working_directory_def sketch_dir_def getattr_vsketch_cwd_def home_world_def
      sketch_scope_def rect_sketch_def seed_sources_def os_getcwd_def os_chdir_def
      List.map_filter_def)

lemma rect_bounds:
  "bounds (document (add_line [(Dbl 10, Dbl 10), (Dbl 30, Dbl 10), (Dbl 30, Dbl 50), (Dbl 10, Dbl 50), (Dbl 10, Dbl 10)] blank_sketch))
     = Some (Dbl 10, Dbl 10, Dbl 30, Dbl 50)"
  by (simp add: bounds_def add_line_def blank_sketch_def dmin_def dmax_def)

lemma rect_page:
  "page_size (document (add_line l blank_sketch)) = Some (Dbl 100, Dbl 100) \<and>
   centered (add_line l blank_sketch)"
  by (simp add: add_line_def blank_sketch_def)


lemma rect_offsets:
  "center_offset (Dbl 100) (Dbl 10) (Dbl 30) = Dbl 30"
  "center_offset (Dbl 100) (Dbl 10) (Dbl 50) = Dbl 20"
  by (simp_all add: center_offset_def fsub_def)








theorem centering_example_counterexample:
  "produced_bounds (execute_sketch (\<lambda>c. rect_sketch) (Some 5) None False home_world)
     = Inr (Some (Some (Dbl 40, Dbl 30, Dbl 60, Dbl 70))) \<and>
   produced_bounds (execute_sketch (\<lambda>c. rect_sketch) (Some 5) None False home_world)
     \<noteq> Inr (Some (Some (Dbl 35, Dbl 25, Dbl 55, Dbl 65)))"
proof -
  let ?v = "add_line [(Dbl 10, Dbl 10), (Dbl 30, Dbl 10), (Dbl 30, Dbl 50), (Dbl 10, Dbl 50), (Dbl 10, Dbl 10)] blank_sketch"
  have e: "execute_sketch (\<lambda>c. rect_sketch) (Some 5) None False home_world
             = (Inr (Some (centering ?v)), home_world)"
    using rect_scope by (rule execute_sketch_centers)
  have c: "centering ?v = ?v\<lparr>document := translate (Dbl 30) (Dbl 20) (document ?v)\<rparr>"
    using centering_translates[of ?v "Dbl 100" "Dbl 100" "Dbl 10" "Dbl 10" "Dbl 30" "Dbl 50"]
    by (simp add: rect_bounds rect_page rect_offsets)
  show ?thesis
    by (simp add: e c produced_bounds_def produced_def bounds_translate rect_bounds)
qed

text \<open>
  Claim C4, amended. An instance with \<^verbatim>\<open>centered = True\<close>, a page of (100, 100) and
  a drawn shape with bounds (10, 10)-(30, 50) comes back from \<^verbatim>\<open>execute_sketch\<close> with
  the shape at (40, 30)-(60, 70): the offsets are (100 - 20) / 2 - 10 = 30 and
  (100 - 40) / 2 - 10 = 20, all of them exact in double arithmetic. The claim's
  (35, 25)-(55, 65) is not what the formula of the source gives, as the evaluation
  before this theorem shows.
\<close>

theorem centering_example:
  "centered vsk \<and> page_size (document vsk) = Some (Dbl 100, Dbl 100) \<and>
   bounds (document vsk) = Some (Dbl 10, Dbl 10, Dbl 30, Dbl 50) \<and>
   working_directory (sketch_dir w c) (sketch_scope (prog c) seed fin) w = (Inr (Some vsk), w1)
   \<longrightarrow> produced_bounds (execute_sketch prog (Some c) seed fin w)
         = Inr (Some (Some (Dbl 40, Dbl 30, Dbl 60, Dbl 70)))"
proof
  assume a: "centered vsk \<and> page_size (document vsk) = Some (Dbl 100, Dbl 100) \<and>
   bounds (document vsk) = Some (Dbl 10, Dbl 10, Dbl 30, Dbl 50) \<and>
   working_directory (sketch_dir w c) (sketch_scope (prog c) seed fin) w = (Inr (Some vsk), w1)"
  then have e: "execute_sketch prog (Some c) seed fin w = (Inr (Some (centering vsk)), w1)"
    by (simp add: execute_sketch_centers)
  from a have c: "centering vsk = vsk\<lparr>document := translate (Dbl 30) (Dbl 20) (document vsk)\<rparr>"
    using centering_translates[of vsk "Dbl 100" "Dbl 100" "Dbl 10" "Dbl 10" "Dbl 30" "Dbl 50"]
    by (simp add: rect_offsets)
  from a show "produced_bounds (execute_sketch prog (Some c) seed fin w)
         = Inr (Some (Some (Dbl 40, Dbl 30, Dbl 60, Dbl 70)))"
    by (simp add: e c produced_bounds_def produced_def bounds_translate)
qed

theorem centering_example_witness:
  "centered (add_line [(Dbl 10, Dbl 10), (Dbl 30, Dbl 10), (Dbl 30, Dbl 50), (Dbl 10, Dbl 50), (Dbl 10, Dbl 10)] blank_sketch) \<and>
   page_size (document (add_line [(Dbl 10, Dbl 10), (Dbl 30, Dbl 10), (Dbl 30, Dbl 50), (Dbl 10, Dbl 50), (Dbl 10, Dbl 10)] blank_sketch))
     = Some (Dbl 100, Dbl 100) \<and>
   bounds (document (add_line [(Dbl 10, Dbl 10), (Dbl 30, Dbl 10), (Dbl 30, Dbl 50), (Dbl 10, Dbl 50), (Dbl 10, Dbl 10)] blank_sketch))
     = Some (Dbl 10, Dbl 10, Dbl 30, Dbl 50) \<and>
   working_directory (sketch_dir home_world 5) (sketch_scope rect_sketch None False) home_world
     = (Inr (Some (add_line [(Dbl 10, Dbl 10), (Dbl 30, Dbl 10), (Dbl 30, Dbl 50), (Dbl 10, Dbl 50), (Dbl 10, Dbl 10)] blank_sketch)),
        home_world) \<and>
   produced_bounds (execute_sketch (\<lambda>c. rect_sketch) (Some 5) None False home_world)
     = Inr (Some (Some (Dbl 40, Dbl 30, Dbl 60, Dbl 70)))"
  using centering_example[of "add_line [(Dbl 10, Dbl 10), (Dbl 30, Dbl 10), (Dbl 30, Dbl 50), (Dbl 10, Dbl 50), (Dbl 10, Dbl 10)] blank_sketch"
          home_world 5 "\<lambda>c. rect_sketch" None False home_world]
  by (simp add: rect_scope rect_bounds rect_page)

section \<open>Properties of working\_directory\<close>

lemma working_directory_entered:
  assumes "os_getcwd w = Inr prev" and "os_chdir path w = (Inr (), w1)"
    and "body w1 = (r, w2)"
  shows "working_directory path body w =
           (case resolve_dir w2 (cwd w2) prev of
              None \<Rightarrow> (Inl (Exc ''OSError''), w2)
            | Some d \<Rightarrow> (r, w2\<lparr>cwd := d\<rparr>))"
  using assms by (simp add: working_directory_def os_chdir_def split: option.splits)

lemma working_directory_not_entered:
  "os_getcwd w = Inl e \<Longrightarrow> working_directory path body w = (Inl e, w)"
  "os_getcwd w = Inr prev \<Longrightarrow> os_chdir path w = (Inl e, w1) \<Longrightarrow>
     working_directory path body w = (Inl e, w)"
  by (auto simp: working_directory_def os_chdir_def split: option.splits)

lemma os_getcwd_Inr: "os_getcwd w = Inr prev \<Longrightarrow> prev = cwd w"
  by (simp add: os_getcwd_def split: if_splits)

lemma restorable_cwd:
  assumes "restorable path body w"
  shows "cwd (snd (working_directory path body w)) = cwd w"
proof (cases "os_getcwd w")
  case (Inl e)
  then show ?thesis by (simp add: working_directory_not_entered)
next
  case (Inr prev)
  then have prev: "prev = cwd w" by (rule os_getcwd_Inr)
  obtain r w1 where c: "os_chdir path w = (r, w1)" by (cases "os_chdir path w")
  show ?thesis
  proof (cases r)
    case (Inl e)
    with Inr c show ?thesis by (simp add: working_directory_not_entered)
  next
    case (Inr u)
    obtain r2 w2 where b: "body w1 = (r2, w2)" by (cases "body w1")
    from assms \<open>os_getcwd w = Inr prev\<close> c Inr b
    have "resolve_dir w2 (cwd w2) prev = Some prev" by (simp add: restorable_def)
    moreover from c Inr have "os_chdir path w = (Inr (), w1)" by simp
    ultimately show ?thesis
      using working_directory_entered[of w prev path w1 body r2 w2] \<open>os_getcwd w = Inr prev\<close>
        b prev by simp
  qed
qed

lemma restorable_outcome:
  assumes "restorable path body w" and "os_getcwd w = Inr prev"
    and "os_chdir path w = (Inr (), w1)"
  shows "working_directory path body w = (fst (body w1), (snd (body w1))\<lparr>cwd := cwd w\<rparr>)"
proof -
  obtain r2 w2 where b: "body w1 = (r2, w2)" by (cases "body w1")
  from assms b have "resolve_dir w2 (cwd w2) prev = Some prev" by (simp add: restorable_def)
  with working_directory_entered[of w prev path w1 body r2 w2] assms(2,3)
    os_getcwd_Inr[OF assms(2)] b
  show ?thesis by simp
qed

text \<open>
  Claim C2, amended. For every target directory and every scope body, the working
  directory after \<^verbatim>\<open>working_directory\<close> equals its value before whenever the scope
  is \<open>restorable\<close>: it was never entered (\<^verbatim>\<open>os.getcwd\<close> or the first \<^verbatim>\<open>os.chdir\<close>
  raised), or the directory saved at entry still names itself when the body is done,
  whether the body returned or raised. Once the scope is entered, the outcome is the
  outcome of the body. The body that removes the saved directory, evaluated after the
  witness, leaves the process in the target directory.
\<close>

theorem working_directory_restores:
  "restorable path body w \<Longrightarrow>
   cwd (snd (working_directory path body w)) = cwd w \<and>
   (\<forall>w1. os_getcwd w = Inr (cwd w) \<and> os_chdir path w = (Inr (), w1) \<longrightarrow>
      working_directory path body w = (fst (body w1), (snd (body w1))\<lparr>cwd := cwd w\<rparr>))"
  using restorable_cwd restorable_outcome by blast

lemma home_getcwd: "os_getcwd home_world = Inr (Path ''/home/u'')"
  by (simp add: os_getcwd_def home_world_def)

lemma home_chdir_out:
  "os_chdir (Path ''out'') home_world = (Inr (), home_world\<lparr>cwd := Path ''/home/u/out''\<rparr>)"
  by (simp add: os_chdir_def home_world_def)

lemma home_cwd: "cwd home_world = Path ''/home/u''"
  by (simp add: home_world_def)

lemma home_resolve_home:
  "resolve_dir home_world c (Path ''/home/u'') = Some (Path ''/home/u'')"
  by (simp add: home_world_def)

lemma home_restorable:
  "restorable (Path ''out'') body_returns home_world"
  "restorable (Path ''out'') body_raises home_world"
  by (simp_all add: restorable_def home_getcwd home_chdir_out body_returns_def body_raises_def
      home_resolve_home)

theorem working_directory_restores_witness:
  "restorable (Path ''out'') body_returns home_world \<and>
   restorable (Path ''out'') body_raises home_world \<and>
   cwd (snd (working_directory (Path ''out'') body_returns home_world)) = Path ''/home/u'' \<and>
   cwd (snd (working_directory (Path ''out'') body_raises home_world)) = Path ''/home/u'' \<and>
   working_directory (Path ''out'') body_raises home_world
     = (Inl (Exc ''RuntimeError''), home_world)"
  using working_directory_restores[OF home_restorable(1)]
        working_directory_restores[OF home_restorable(2)]
  by (simp add: home_restorable home_getcwd home_chdir_out home_cwd body_raises_def)

lemma remove_dir_simps:
  "cwd (remove_dir d w) = cwd w"
  "resolve_dir (remove_dir d w) c p =
     (if resolve_dir w c p = Some d then None else resolve_dir w c p)"
  by (simp_all add: remove_dir_def)

lemma job_getcwd: "os_getcwd job_world = Inr (Path ''/tmp/job'')"
  by (simp add: os_getcwd_def job_world_def)

lemma job_chdir_sketches:
  "os_chdir (Path ''/srv/sketches'') job_world
     = (Inr (), job_world\<lparr>cwd := Path ''/srv/sketches''\<rparr>)"
  by (simp add: os_chdir_def job_world_def)

lemma job_resolve_job:
  "resolve_dir job_world c (Path ''/tmp/job'') = Some (Path ''/tmp/job'')"
  by (simp add: job_world_def)

lemma job_cwd: "cwd job_world = Path ''/tmp/job''"
  by (simp add: job_world_def)

theorem working_directory_counterexample:
  "working_directory (Path ''/srv/sketches'') body_removes_job job_world
     = (Inl (Exc ''OSError''),
        remove_dir (Path ''/tmp/job'') (job_world\<lparr>cwd := Path ''/srv/sketches''\<rparr>)) \<and>
   cwd (snd (working_directory (Path ''/srv/sketches'') body_removes_job job_world))
     = Path ''/srv/sketches'' \<and>
   cwd job_world = Path ''/tmp/job''"
proof -
  let ?w2 = "remove_dir (Path ''/tmp/job'') (job_world\<lparr>cwd := Path ''/srv/sketches''\<rparr>)"
  have b: "body_removes_job (job_world\<lparr>cwd := Path ''/srv/sketches''\<rparr>) = (Inr (), ?w2)"
    by (simp add: body_removes_job_def)
  have r: "resolve_dir ?w2 (cwd ?w2) (Path ''/tmp/job'') = None"
    by (simp add: remove_dir_simps job_resolve_job)
  have "working_directory (Path ''/srv/sketches'') body_removes_job job_world
          = (Inl (Exc ''OSError''), ?w2)"
    using working_directory_entered[where body = body_removes_job,
            OF job_getcwd job_chdir_sketches b]
    by (simp only: r option.case)
  then show ?thesis by (simp add: remove_dir_simps job_cwd)
qed

section \<open>Properties of load\_sketch\_class\<close>

lemma scan_values_first:
  "\<forall>v\<in>set pre. \<not> is_sketch_class w v \<Longrightarrow> is_sketch_class w (ClassObj c) \<Longrightarrow>
   scan_values (pre @ ClassObj c # post) cwd_path w =
     (Some c, w\<lparr>cls_cwd := (cls_cwd w)(c \<mapsto> cwd_path)\<rparr>)"
proof (induction pre)
  case Nil
  then show ?case by (simp only: append_Nil scan_values.simps is_sketch_class.simps if_True)
next
  case (Cons v pre)
  then show ?case by (cases v) (simp_all del: fun_upd_apply)
qed

lemma scan_values_none:
  "\<forall>v\<in>set vs. \<not> is_sketch_class w v \<Longrightarrow> scan_values vs cwd_path w = (None, w)"
proof (induction vs)
  case Nil
  then show ?case by simp
next
  case (Cons v vs)
  then show ?case by (cases v) simp_all
qed




text \<open>
  Claim C6. When the script has run and returned its globals, \<^verbatim>\<open>load_sketch_class\<close>
  returns the first value, in the order of the globals, that is a class deriving from
  \<^verbatim>\<open>Vsketch\<close>, and sets \<^verbatim>\<open>__vsketch_cwd__\<close> of that class to the context
  directory; when no value is such a class it returns \<^verbatim>\<open>None\<close>, raises nothing and
  changes nothing.
\<close>

theorem load_sketch_class_first:
  "working_directory (context_dir w path) (run_path path) w = (Inr sketch_scripts, w1) \<longrightarrow>
   (map snd sketch_scripts = pre @ ClassObj c # post \<and>
    (\<forall>v\<in>set pre. \<not> is_sketch_class w1 v) \<and> is_sketch_class w1 (ClassObj c) \<longrightarrow>
      load_sketch_class run_path path w =
        (Inr (Some c), w1\<lparr>cls_cwd := (cls_cwd w1)(c \<mapsto> context_dir w path)\<rparr>)) \<and>
   ((\<forall>v\<in>set (map snd sketch_scripts). \<not> is_sketch_class w1 v) \<longrightarrow>
      load_sketch_class run_path path w = (Inr None, w1))"
  by (auto simp: load_sketch_class_def scan_values_first scan_values_none)

lemma home_context:
  "context_dir home_world (Div (Path ''out'') ''sketch.py'') = Parent (Div (Path ''out'') ''sketch.py'')"
  by (simp add: context_dir_def is_dir_def home_world_def)

lemma home_chdir_script:
  "os_chdir (Parent (Div (Path ''out'') ''sketch.py'')) home_world
     = (Inr (), home_world\<lparr>cwd := Path ''/home/u/out''\<rparr>)"
  by (simp add: os_chdir_def home_world_def)

lemma home_run:
  assumes "run_path (Div (Path ''out'') ''sketch.py'') (home_world\<lparr>cwd := Path ''/home/u/out''\<rparr>)
             = (r, home_world\<lparr>cwd := Path ''/home/u/out''\<rparr>)"
  shows "working_directory (context_dir home_world (Div (Path ''out'') ''sketch.py''))
           (run_path (Div (Path ''out'') ''sketch.py'')) home_world = (r, home_world)"
  using working_directory_entered[where body = "run_path (Div (Path ''out'') ''sketch.py'')",
          OF home_getcwd home_chdir_script assms]
  by (simp add: home_context home_resolve_home) (simp add: home_world_def)

lemma home_sketch_classes:
  "issubclass home_world 5 Vsketch" "issubclass home_world 6 Vsketch"
  "\<not> issubclass home_world 3 Vsketch"
  by (simp_all add: issubclass_def home_world_def Vsketch_def)

theorem load_sketch_class_first_witness:
  "working_directory (context_dir home_world (Div (Path ''out'') ''sketch.py''))
     (script_two_sketches (Div (Path ''out'') ''sketch.py'')) home_world
     = (Inr [(''__name__'', OtherObj ''<run_path>''), (''Helper'', ClassObj 3),
             (''First'', ClassObj 5), (''Second'', ClassObj 6)], home_world) \<and>
   load_sketch_class script_two_sketches (Div (Path ''out'') ''sketch.py'') home_world
     = (Inr (Some 5),
        home_world\<lparr>cls_cwd := [5 \<mapsto> Parent (Div (Path ''out'') ''sketch.py'')]\<rparr>) \<and>
   working_directory (context_dir home_world (Div (Path ''out'') ''sketch.py''))
     (script_no_sketch (Div (Path ''out'') ''sketch.py'')) home_world
     = (Inr [(''__name__'', OtherObj ''<run_path>''), (''Helper'', ClassObj 3)], home_world) \<and>
   load_sketch_class script_no_sketch (Div (Path ''out'') ''sketch.py'') home_world
     = (Inr None, home_world)"
proof -
  have a: "working_directory (context_dir home_world (Div (Path ''out'') ''sketch.py''))
     (script_two_sketches (Div (Path ''out'') ''sketch.py'')) home_world
     = (Inr [(''__name__'', OtherObj ''<run_path>''), (''Helper'', ClassObj 3),
             (''First'', ClassObj 5), (''Second'', ClassObj 6)], home_world)"
    by (rule home_run) (simp add: script_two_sketches_def)
  have b: "working_directory (context_dir home_world (Div (Path ''out'') ''sketch.py''))
     (script_no_sketch (Div (Path ''out'') ''sketch.py'')) home_world
     = (Inr [(''__name__'', OtherObj ''<run_path>''), (''Helper'', ClassObj 3)], home_world)"
    by (rule home_run) (simp add: script_no_sketch_def)
  have e: "cls_cwd home_world = Map.empty" by (simp add: home_world_def)
  from load_sketch_class_first[of home_world "Div (Path ''out'') ''sketch.py''"
         script_two_sketches
         "[(''__name__'', OtherObj ''<run_path>''), (''Helper'', ClassObj 3),
           (''First'', ClassObj 5), (''Second'', ClassObj 6)]"
         home_world "[OtherObj ''<run_path>'', ClassObj 3]" 5 "[ClassObj 6]"]
       load_sketch_class_first[of home_world "Div (Path ''out'') ''sketch.py''"
         script_no_sketch "[(''__name__'', OtherObj ''<run_path>''), (''Helper'', ClassObj 3)]"
         home_world "[]" 5 "[]"]
  show ?thesis
    by (simp add: a b a[unfolded home_context] b[unfolded home_context]
        home_sketch_classes home_context e)
qed




section \<open>Exceptions in execute\_sketch\<close>

lemma sketch_scope_draw_raises:
  "new_sketch code w1 = (Inr (Some v), w2) \<Longrightarrow> seed_sources seed v w2 = (Inr (), v1, w3) \<Longrightarrow>
   draw code v1 w3 = (Inl e, v2, w4) \<Longrightarrow> sketch_scope code seed fin w1 = (Inl e, w4)"
  by (simp add: sketch_scope_def)

lemma sketch_scope_finalize_raises:
  "new_sketch code w1 = (Inr (Some v), w2) \<Longrightarrow> seed_sources seed v w2 = (Inr (), v1, w3) \<Longrightarrow>
   draw code v1 w3 = (Inr (), v', w') \<Longrightarrow> fin \<Longrightarrow> finalize code v' w' = (Inl e, v2, w4) \<Longrightarrow>
   sketch_scope code seed fin w1 = (Inl e, w4)"
  by (simp add: sketch_scope_def)

lemma execute_sketch_scope_raises:
  assumes g: "os_getcwd w = Inr prev" and c: "os_chdir (sketch_dir w c) w = (Inr (), w1)"
    and s: "sketch_scope (prog c) seed fin w1 = (Inl e, w4)"
  shows "execute_sketch prog (Some c) seed fin w =
           (case resolve_dir w4 (cwd w4) prev of
              None \<Rightarrow> (Inl (Exc ''OSError''), w4)
            | Some d \<Rightarrow> (Inl e, w4\<lparr>cwd := d\<rparr>))"
proof -
  have p: "prev = cwd w" using g by (rule os_getcwd_Inr)
  have "working_directory (sketch_dir w c) (sketch_scope (prog c) seed fin) w =
           (case resolve_dir w4 (cwd w4) prev of
              None \<Rightarrow> (Inl (Exc ''OSError''), w4)
            | Some d \<Rightarrow> (Inl e, w4\<lparr>cwd := d\<rparr>))"
    using working_directory_entered[of w prev "sketch_dir w c" w1
            "sketch_scope (prog c) seed fin" "Inl e" w4] g c s by simp
  then show ?thesis
    using g p by (simp add: execute_sketch_def sketch_dir_def split: option.splits)
qed

text \<open>
  Claim C8, amended. When the instance is created and seeded and \<^verbatim>\<open>draw\<close> raises,
  or \<^verbatim>\<open>draw\<close> returns and the requested \<^verbatim>\<open>finalize\<close> raises, \<^verbatim>\<open>execute_sketch\<close>
  raises: it never returns an instance or \<^verbatim>\<open>None\<close>. The exception that reaches the
  caller is the one raised by \<^verbatim>\<open>draw\<close> or \<^verbatim>\<open>finalize\<close> whenever the directory saved
  at entry still names itself; otherwise the \<^verbatim>\<open>OSError\<close> of the \<^verbatim>\<open>os.chdir\<close> in the
  \<^verbatim>\<open>finally\<close> clause takes its place, as the evaluation after the witness shows.
\<close>

theorem execute_sketch_propagates:
  "os_getcwd w = Inr prev \<and> os_chdir (sketch_dir w c) w = (Inr (), w1) \<and>
   new_sketch (prog c) w1 = (Inr (Some v), w2) \<and> seed_sources seed v w2 = (Inr (), v1, w3) \<and>
   (draw (prog c) v1 w3 = (Inl e, v2, w4) \<or>
    draw (prog c) v1 w3 = (Inr (), v', w') \<and> fin \<and> finalize (prog c) v' w' = (Inl e, v2, w4))
   \<longrightarrow> (\<exists>e'. fst (execute_sketch prog (Some c) seed fin w) = Inl e') \<and>
       (resolve_dir w4 (cwd w4) prev = Some prev \<longrightarrow>
          execute_sketch prog (Some c) seed fin w = (Inl e, w4\<lparr>cwd := prev\<rparr>))"
proof
  assume a: "os_getcwd w = Inr prev \<and> os_chdir (sketch_dir w c) w = (Inr (), w1) \<and>
   new_sketch (prog c) w1 = (Inr (Some v), w2) \<and> seed_sources seed v w2 = (Inr (), v1, w3) \<and>
   (draw (prog c) v1 w3 = (Inl e, v2, w4) \<or>
    draw (prog c) v1 w3 = (Inr (), v', w') \<and> fin \<and> finalize (prog c) v' w' = (Inl e, v2, w4))"
  then have "sketch_scope (prog c) seed fin w1 = (Inl e, w4)"
    using sketch_scope_draw_raises[of "prog c" w1 v w2 seed v1 w3 e v2 w4 fin]
      sketch_scope_finalize_raises[of "prog c" w1 v w2 seed v1 w3 v' w' fin e v2 w4]
    by blast
  with a have x: "execute_sketch prog (Some c) seed fin w =
           (case resolve_dir w4 (cwd w4) prev of
              None \<Rightarrow> (Inl (Exc ''OSError''), w4)
            | Some d \<Rightarrow> (Inl e, w4\<lparr>cwd := d\<rparr>))"
    by (simp add: execute_sketch_scope_raises)
  show "(\<exists>e'. fst (execute_sketch prog (Some c) seed fin w) = Inl e') \<and>
       (resolve_dir w4 (cwd w4) prev = Some prev \<longrightarrow>
          execute_sketch prog (Some c) seed fin w = (Inl e, w4\<lparr>cwd := prev\<rparr>))"
    unfolding x by (cases "resolve_dir w4 (cwd w4) prev") simp_all
qed

lemma home_sketch_dir: "sketch_dir home_world 5 = Path ''/home/u''"
  by (simp add: sketch_dir_def getattr_vsketch_cwd_def List.map_filter_def home_world_def)

lemma home_chdir_home:
  "os_chdir (Path ''/home/u'') home_world = (Inr (), home_world)"
  by (simp add: os_chdir_def home_world_def)

theorem execute_sketch_propagates_witness:
  "os_getcwd home_world = Inr (Path ''/home/u'') \<and>
   os_chdir (sketch_dir home_world 5) home_world = (Inr (), home_world) \<and>
   new_sketch failing_sketch home_world = (Inr (Some blank_sketch), home_world) \<and>
   seed_sources None blank_sketch home_world = (Inr (), blank_sketch, home_world) \<and>
   draw failing_sketch blank_sketch home_world
     = (Inl (Exc ''ZeroDivisionError''), blank_sketch, home_world) \<and>
   resolve_dir home_world (cwd home_world) (Path ''/home/u'') = Some (Path ''/home/u'') \<and>
   execute_sketch (\<lambda>c. failing_sketch) (Some 5) None False home_world
     = (Inl (Exc ''ZeroDivisionError''), home_world)"
proof -
  have n: "new_sketch failing_sketch home_world = (Inr (Some blank_sketch), home_world)"
    and d: "draw failing_sketch blank_sketch home_world
     = (Inl (Exc ''ZeroDivisionError''), blank_sketch, home_world)"
    by (simp_all add: failing_sketch_def)
  have s: "seed_sources None blank_sketch home_world = (Inr (), blank_sketch, home_world)"
    by (simp add: seed_sources_def)
  have u: "home_world\<lparr>cwd := Path ''/home/u''\<rparr> = home_world" by (simp add: home_world_def)
  from execute_sketch_propagates[of home_world "Path ''/home/u''" 5 home_world
         "\<lambda>c. failing_sketch" blank_sketch home_world None blank_sketch home_world
         "Exc ''ZeroDivisionError''" blank_sketch home_world blank_sketch home_world False]
  show ?thesis
    by (simp add: home_getcwd home_sketch_dir home_chdir_home n d s home_resolve_home u)
qed

lemma job_sketch_dir: "sketch_dir job_world 5 = Path ''/srv/sketches''"
  by (simp add: sketch_dir_def getattr_vsketch_cwd_def List.map_filter_def job_world_def)

theorem execute_sketch_counterexample:
  "draw vandal_sketch blank_sketch (job_world\<lparr>cwd := Path ''/srv/sketches''\<rparr>)
     = (Inl (Exc ''ZeroDivisionError''), blank_sketch,
        remove_dir (Path ''/tmp/job'') (job_world\<lparr>cwd := Path ''/srv/sketches''\<rparr>)) \<and>
   execute_sketch (\<lambda>c. vandal_sketch) (Some 5) None False job_world
     = (Inl (Exc ''OSError''),
        remove_dir (Path ''/tmp/job'') (job_world\<lparr>cwd := Path ''/srv/sketches''\<rparr>))"
proof -
  let ?w1 = "job_world\<lparr>cwd := Path ''/srv/sketches''\<rparr>"
  let ?w2 = "remove_dir (Path ''/tmp/job'') ?w1"
  have d: "draw vandal_sketch blank_sketch ?w1
             = (Inl (Exc ''ZeroDivisionError''), blank_sketch, ?w2)"
    by (simp add: vandal_sketch_def)
  have s: "sketch_scope vandal_sketch None False ?w1 = (Inl (Exc ''ZeroDivisionError''), ?w2)"
    by (simp add: sketch_scope_def vandal_sketch_def seed_sources_def)
  have c: "os_chdir (sketch_dir job_world 5) job_world = (Inr (), ?w1)"
    by (simp add: job_sketch_dir job_chdir_sketches)
  have r: "resolve_dir ?w2 (cwd ?w2) (Path ''/tmp/job'') = None"
    by (simp add: remove_dir_simps job_resolve_job)
  have "execute_sketch (\<lambda>c. vandal_sketch) (Some 5) None False job_world
          = (Inl (Exc ''OSError''), ?w2)"
    using execute_sketch_scope_raises[of job_world "Path ''/tmp/job''" 5 ?w1
            "\<lambda>c. vandal_sketch" None False "Exc ''ZeroDivisionError''" ?w2,
            OF job_getcwd c s]
    by (simp only: r option.case)
  with d show ?thesis by simp
qed

section \<open>Properties of load\_config\<close>

text \<open>
  Claim C10. \<^verbatim>\<open>load_config\<close> returns what the parser returns for the text of the
  file, whatever that value is: an array or a scalar is returned as it is, and nothing
  checks that the value is an object.
\<close>

theorem load_config_passes_value:
  "load_config json_loads path w =
     (case read_file w (cwd w) path of
        None \<Rightarrow> Inl (Exc ''OSError'')
      | Some txt \<Rightarrow> json_loads txt) \<and>
   (read_file w (cwd w) path = Some txt \<and> json_loads txt = Inr v
      \<longrightarrow> load_config json_loads path w = Inr v)"
  by (simp add: load_config_def open_read_def split: option.splits)

theorem load_config_passes_value_witness:
  "read_file home_world (cwd home_world) (Div (Path ''out'') ''params.json'') = Some ''[]'' \<and>
   toy_loads ''[]'' = Inr (JArr []) \<and>
   load_config toy_loads (Div (Path ''out'') ''params.json'') home_world = Inr (JArr [])"
proof -
  have r: "read_file home_world (cwd home_world) (Div (Path ''out'') ''params.json'') = Some ''[]''"
    by (simp add: home_world_def)
  have t: "toy_loads ''[]'' = Inr (JArr [])" by (simp add: toy_loads_def)
  from load_config_passes_value[of toy_loads "Div (Path ''out'') ''params.json''" home_world
         "''[]''" "JArr []"] r t
  show ?thesis by simp
qed

section \<open>Two runs of execute\_sketch with the same seed\<close>

lemma same_but_random_fields:
  assumes "same_but_random w w'"
  shows "cwd w' = cwd w" "resolve_dir w' = resolve_dir w" "read_file w' = read_file w"
    "stderr w' = stderr w" "cls_mro w' = cls_mro w" "cls_cwd w' = cls_cwd w"
  using assms by (cases w; cases w'; simp add: same_but_random_def)+

lemma same_but_random_refl: "same_but_random w w"
  by (simp add: same_but_random_def)

lemma same_but_random_cwd:
  "same_but_random w w' \<Longrightarrow> same_but_random (w\<lparr>cwd := d\<rparr>) (w'\<lparr>cwd := d\<rparr>)"
  by (cases w; cases w'; simp add: same_but_random_def)

lemma same_but_random_seeded:
  "same_but_random w w' \<Longrightarrow>
   w\<lparr>py_random := a, np_random := b\<rparr> = w'\<lparr>py_random := a, np_random := b\<rparr>"
  by (cases w; cases w'; simp add: same_but_random_def)

lemma same_but_random_py:
  "same_but_random w w' \<Longrightarrow> same_but_random (w\<lparr>py_random := a\<rparr>) (w'\<lparr>py_random := b\<rparr>)"
  by (cases w; cases w'; simp add: same_but_random_def)

lemma same_but_seeds_seeded:
  "same_but_seeds v v' \<Longrightarrow>
   v\<lparr>random_state := a, noise_state := b\<rparr> = v'\<lparr>random_state := a, noise_state := b\<rparr>"
  by (cases v; cases v'; simp add: same_but_seeds_def)

lemma os_getcwd_agree: "same_but_random w w' \<Longrightarrow> os_getcwd w' = os_getcwd w"
  by (simp add: os_getcwd_def same_but_random_fields)

lemma os_chdir_agree:
  assumes "same_but_random w w'"
  shows "fst (os_chdir p w') = fst (os_chdir p w) \<and>
         same_but_random (snd (os_chdir p w)) (snd (os_chdir p w'))"
  using assms
  by (auto simp: os_chdir_def same_but_random_fields same_but_random_cwd split: option.splits)

lemma working_directory_agree:
  assumes w: "same_but_random w w'"
    and b: "\<And>u u'. same_but_random u u' \<Longrightarrow>
              fst (body u') = fst (body u) \<and> same_but_random (snd (body u)) (snd (body u'))"
  shows "fst (working_directory p body w') = fst (working_directory p body w) \<and>
         same_but_random (snd (working_directory p body w)) (snd (working_directory p body w'))"
proof (cases "os_getcwd w")
  case (Inl e)
  with w os_getcwd_agree[OF w] show ?thesis by (simp add: working_directory_def)
next
  case (Inr prev)
  note g = this
  obtain r1 w1 where c: "os_chdir p w = (r1, w1)" by (cases "os_chdir p w")
  obtain r1' w1' where c': "os_chdir p w' = (r1', w1')" by (cases "os_chdir p w'")
  from os_chdir_agree[OF w, of p] c c' have e1: "r1' = r1" and s1: "same_but_random w1 w1'"
    by simp_all
  show ?thesis
  proof (cases r1)
    case (Inl e)
    with g os_getcwd_agree[OF w] c c' e1 s1 show ?thesis by (simp add: working_directory_def)
  next
    case (Inr u)
    obtain r2 w2 where d: "body w1 = (r2, w2)" by (cases "body w1")
    obtain r2' w2' where d': "body w1' = (r2', w2')" by (cases "body w1'")
    from b[OF s1] d d' have e2: "r2' = r2" and s2: "same_but_random w2 w2'" by simp_all
    obtain r3 w3 where f: "os_chdir prev w2 = (r3, w3)" by (cases "os_chdir prev w2")
    obtain r3' w3' where f': "os_chdir prev w2' = (r3', w3')" by (cases "os_chdir prev w2'")
    from os_chdir_agree[OF s2, of prev] f f' have e3: "r3' = r3" and s3: "same_but_random w3 w3'"
      by simp_all
    from g os_getcwd_agree[OF w] c c' e1 Inr d d' e2 f f' e3 s3 show ?thesis
      by (cases r3) (simp_all add: working_directory_def)
  qed
qed

lemma seed_sources_agree:
  assumes "same_but_random u u'" and "same_but_seeds v v'"
  shows "fst (seed_sources (Some s) v' u') = fst (seed_sources (Some s) v u) \<and>
         same_but_random (snd (snd (seed_sources (Some s) v u)))
                         (snd (snd (seed_sources (Some s) v' u'))) \<and>
         (fst (seed_sources (Some s) v u) = Inr () \<longrightarrow>
            seed_sources (Some s) v' u' = seed_sources (Some s) v u)"
  using same_but_random_seeded[OF assms(1), of "Seeded s" "Seeded s"]
    same_but_seeds_seeded[OF assms(2), of "Seeded s" "Seeded s"]
    same_but_random_py[OF assms(1), of "Seeded s" "Seeded s"]
  by (simp add: seed_sources_def np_random_seed_def random_seed_def randomSeed_def noiseSeed_def
      same_but_random_refl)

lemma sketch_scope_agree:
  assumes cf: "ctor_random_free code" and u: "same_but_random u u'"
  shows "fst (sketch_scope code (Some s) fin u') = fst (sketch_scope code (Some s) fin u) \<and>
         same_but_random (snd (sketch_scope code (Some s) fin u))
                         (snd (sketch_scope code (Some s) fin u'))"
proof -
  obtain r1 w1 where n: "new_sketch code u = (r1, w1)" by (cases "new_sketch code u")
  obtain r1' w1' where n': "new_sketch code u' = (r1', w1')" by (cases "new_sketch code u'")
  from cf u have
    "same_but_random (snd (new_sketch code u)) (snd (new_sketch code u')) \<and>
     (case (fst (new_sketch code u), fst (new_sketch code u')) of
           (Inl e, Inl e') \<Rightarrow> e = e'
         | (Inr None, Inr None) \<Rightarrow> True
         | (Inr (Some v), Inr (Some v')) \<Rightarrow> same_but_seeds v v'
         | _ \<Rightarrow> False)"
    unfolding ctor_random_free_def by blast
  with n n' have s1: "same_but_random w1 w1'"
    and rel: "case (r1, r1') of
           (Inl e, Inl e') \<Rightarrow> e = e'
         | (Inr None, Inr None) \<Rightarrow> True
         | (Inr (Some v), Inr (Some v')) \<Rightarrow> same_but_seeds v v'
         | _ \<Rightarrow> False"
    by simp_all
  show ?thesis
  proof (cases r1)
    case (Inl e)
    with rel have "r1' = Inl e" by (cases r1') simp_all
    with Inl n n' s1 show ?thesis by (simp add: sketch_scope_def)
  next
    case (Inr o1)
    show ?thesis
    proof (cases o1)
      case None
      with Inr rel have "r1' = Inr None" by (cases r1') (simp_all split: option.splits)
      with Inr None n n' s1 show ?thesis by (simp add: sketch_scope_def)
    next
      case (Some v)
      with Inr rel obtain v' where r': "r1' = Inr (Some v')" and vv: "same_but_seeds v v'"
        by (cases r1') (auto split: option.splits)
      obtain q v1 w2 where ss: "seed_sources (Some s) v w1 = (q, v1, w2)"
        by (cases "seed_sources (Some s) v w1") auto
      obtain q' v1' w2' where ss': "seed_sources (Some s) v' w1' = (q', v1', w2')"
        by (cases "seed_sources (Some s) v' w1'") auto
      from seed_sources_agree[OF s1 vv, of s] ss ss'
      have q: "q' = q" and s2: "same_but_random w2 w2'"
        and eq: "q = Inr () \<longrightarrow> v1' = v1 \<and> w2' = w2" by simp_all
      show ?thesis
      proof (cases q)
        case (Inl e)
        with Inr Some r' n n' ss ss' q s2 show ?thesis by (simp add: sketch_scope_def)
      next
        case (Inr x)
        with eq have "v1' = v1" "w2' = w2" by simp_all
        with \<open>r1 = Inr o1\<close> Some r' n n' ss ss' q
        have "sketch_scope code (Some s) fin u' = sketch_scope code (Some s) fin u"
          by (simp add: sketch_scope_def)
        then show ?thesis by (simp add: same_but_random_refl)
      qed
    qed
  qed
qed

lemma execute_sketch_unfold:
  "os_getcwd w = Inr here \<Longrightarrow>
   working_directory (sketch_dir w c) (sketch_scope (prog c) seed fin) w = (r, w_end) \<Longrightarrow>
   fst (execute_sketch prog (Some c) seed fin w) = map_sum id (map_option centering) r"
proof -
  assume g: "os_getcwd w = Inr here"
    and a: "working_directory (sketch_dir w c) (sketch_scope (prog c) seed fin) w = (r, w_end)"
  from g have h: "here = cwd w" by (simp add: os_getcwd_def split: if_splits)
  have d: "(case getattr_vsketch_cwd w c of None \<Rightarrow> here | Some p \<Rightarrow> p) = sketch_dir w c"
    unfolding h sketch_dir_def by (rule refl)
  show ?thesis
  proof (cases r)
    case (Inl e)
    with g a show ?thesis by (simp add: execute_sketch_def d)
  next
    case (Inr o1)
    with g a show ?thesis by (cases o1) (simp_all add: execute_sketch_def d)
  qed
qed

lemma execute_sketch_agree:
  assumes w: "same_but_random w w'" and cf: "ctor_random_free (prog c)"
  shows "fst (execute_sketch prog (Some c) (Some s) fin w') =
         fst (execute_sketch prog (Some c) (Some s) fin w)"
proof (cases "os_getcwd w")
  case (Inl e)
  with os_getcwd_agree[OF w] show ?thesis by (simp add: execute_sketch_def)
next
  case (Inr here)
  then have g': "os_getcwd w' = Inr here" using os_getcwd_agree[OF w] by simp
  have d: "sketch_dir w' c = sketch_dir w c"
    by (simp add: sketch_dir_def getattr_vsketch_cwd_def same_but_random_fields[OF w]
        cong: option.case_cong)
  obtain r w_end where
    a: "working_directory (sketch_dir w c) (sketch_scope (prog c) (Some s) fin) w = (r, w_end)"
    by (cases "working_directory (sketch_dir w c) (sketch_scope (prog c) (Some s) fin) w")
  obtain r' w_end' where
    a': "working_directory (sketch_dir w c) (sketch_scope (prog c) (Some s) fin) w' = (r', w_end')"
    by (cases "working_directory (sketch_dir w c) (sketch_scope (prog c) (Some s) fin) w'")
  have "fst (working_directory (sketch_dir w c) (sketch_scope (prog c) (Some s) fin) w') =
        fst (working_directory (sketch_dir w c) (sketch_scope (prog c) (Some s) fin) w)"
    using working_directory_agree[where body = "sketch_scope (prog c) (Some s) fin"
            and p = "sketch_dir w c", OF w] sketch_scope_agree[OF cf, of _ _ s fin]
    by simp
  with a a' have "r' = r" by simp
  with execute_sketch_unfold[where prog = prog and c = c, OF Inr a]
    execute_sketch_unfold[where prog = prog and c = c, OF g' a'[folded d]]
  show ?thesis by simp
qed

text \<open>
  Claim C1, amended. Take two runs of \<^verbatim>\<open>execute_sketch\<close> on the same class with the
  same supplied seed, started in worlds that differ at most in the states of
  \<^verbatim>\<open>random\<close> and \<^verbatim>\<open>numpy.random\<close>, so that whatever else \<^verbatim>\<open>draw\<close> and
  \<^verbatim>\<open>finalize\<close> read is the same in both. If the constructor of the class uses the
  randomness it finds only to initialise the two sources of the instance, both runs
  hand the same outcome to the caller: the same exception, or nothing, or the same
  instance with the same document. The constructor runs before the four sources are
  seeded, so a constructor that keeps a random number elsewhere makes two runs differ,
  as the evaluation after the witness shows.
\<close>

theorem execute_sketch_deterministic:
  "same_but_random w1 w2 \<and> ctor_random_free (prog c) \<longrightarrow>
   fst (execute_sketch prog (Some c) (Some s) fin w1) =
     fst (execute_sketch prog (Some c) (Some s) fin w2) \<and>
   produced (execute_sketch prog (Some c) (Some s) fin w1) =
     produced (execute_sketch prog (Some c) (Some s) fin w2)"
  using execute_sketch_agree[of w1 w2 prog c s fin] by (simp add: produced_def)


lemma noisy_ctor_random_free: "ctor_random_free noisy_sketch"
  unfolding ctor_random_free_def
proof (intro allI impI)
  fix w w' assume a: "same_but_random w w'"
  have f: "fst (new_sketch noisy_sketch w) =
             Inr (Some (blank_sketch\<lparr>random_state := Next (py_random w),
                                      noise_state := Next (Next (py_random w))\<rparr>))"
    and f': "fst (new_sketch noisy_sketch w') =
             Inr (Some (blank_sketch\<lparr>random_state := Next (py_random w'),
                                      noise_state := Next (Next (py_random w'))\<rparr>))"
    and g: "snd (new_sketch noisy_sketch w) = w\<lparr>py_random := Next (Next (py_random w))\<rparr>"
    and g': "snd (new_sketch noisy_sketch w') = w'\<lparr>py_random := Next (Next (py_random w'))\<rparr>"
    by (simp_all add: noisy_sketch_def)
  show "same_but_random (snd (new_sketch noisy_sketch w)) (snd (new_sketch noisy_sketch w')) \<and>
        (case (fst (new_sketch noisy_sketch w), fst (new_sketch noisy_sketch w')) of
           (Inl e, Inl e') \<Rightarrow> e = e'
         | (Inr None, Inr None) \<Rightarrow> True
         | (Inr (Some v), Inr (Some v')) \<Rightarrow> same_but_seeds v v'
         | _ \<Rightarrow> False)"
    unfolding f f' g g' using same_but_random_py[OF a]
    by (simp add: same_but_seeds_def)
qed

lemma home_variant_run:
  "fst (execute_sketch (\<lambda>c. noisy_sketch) (Some 5) (Some 42) True
          (home_world\<lparr>py_random := a, np_random := b\<rparr>)) =
   Inr (Some (centering (add_line [(Dbl 42, Dbl 42), (Dbl 42, Dbl 42)]
     (blank_sketch\<lparr>random_state := Next (Seeded 42), noise_state := Next (Seeded 42)\<rparr>))))"
  by (simp add: execute_sketch_def os_getcwd_def working_directory_def os_chdir_def
      sketch_scope_def noisy_sketch_def seed_sources_def random_seed_def np_random_seed_def
      randomSeed_def noiseSeed_def getattr_vsketch_cwd_def List.map_filter_def home_world_def
      add_line_def)

lemma home_variant:
  "home_world\<lparr>py_random := Entropy 0, np_random := Entropy 7\<rparr> = home_world"
  by (simp add: home_world_def)

theorem execute_sketch_deterministic_witness:
  "same_but_random home_world (home_world\<lparr>py_random := Seeded 9, np_random := Next (Entropy 4)\<rparr>) \<and>
   ctor_random_free noisy_sketch \<and>
   produced (execute_sketch (\<lambda>c. noisy_sketch) (Some 5) (Some 42) True home_world) =
     produced (execute_sketch (\<lambda>c. noisy_sketch) (Some 5) (Some 42) True
       (home_world\<lparr>py_random := Seeded 9, np_random := Next (Entropy 4)\<rparr>)) \<and>
   produced (execute_sketch (\<lambda>c. noisy_sketch) (Some 5) (Some 42) True home_world) =
     Inr (Some (document (centering (add_line [(Dbl 42, Dbl 42), (Dbl 42, Dbl 42)]
       (blank_sketch\<lparr>random_state := Next (Seeded 42), noise_state := Next (Seeded 42)\<rparr>)))))"
proof -
  have s: "same_but_random home_world
             (home_world\<lparr>py_random := Seeded 9, np_random := Next (Entropy 4)\<rparr>)"
    by (simp add: same_but_random_def home_world_def)
  have p: "produced (execute_sketch (\<lambda>c. noisy_sketch) (Some 5) (Some 42) True home_world) =
     Inr (Some (document (centering (add_line [(Dbl 42, Dbl 42), (Dbl 42, Dbl 42)]
       (blank_sketch\<lparr>random_state := Next (Seeded 42), noise_state := Next (Seeded 42)\<rparr>)))))"
    using home_variant_run[where a = "Entropy 0" and b = "Entropy 7"] by (simp add: home_variant produced_def)
  from execute_sketch_deterministic[of home_world
         "home_world\<lparr>py_random := Seeded 9, np_random := Next (Entropy 4)\<rparr>"
         "\<lambda>c. noisy_sketch" 5 42 True] s noisy_ctor_random_free p
  show ?thesis by simp
qed

lemma lucky_run:
  "execute_sketch (\<lambda>c. lucky_sketch) (Some 5) (Some 42) False
          (home_world\<lparr>py_random := a, np_random := b\<rparr>) =
   (Inr (Some \<lparr>random_state = Seeded 42, noise_state = Seeded 42, centered = False,
               document = \<lparr>page_size = Some (Dbl 100, Dbl 100),
                           geometry = [[(Dbl 0, Dbl 0), (fl (rng_sample a), Dbl 0)]]\<rparr>,
               user = fl (rng_sample a)\<rparr>),
    home_world\<lparr>py_random := Seeded 42, np_random := Seeded 42\<rparr>)"
  by (simp add: execute_sketch_def os_getcwd_def working_directory_def os_chdir_def
      sketch_scope_def lucky_sketch_def seed_sources_def random_seed_def np_random_seed_def
      randomSeed_def noiseSeed_def getattr_vsketch_cwd_def List.map_filter_def home_world_def
      add_line_def centering_def)

theorem execute_sketch_deterministic_counterexample:
  "same_but_random home_world
     (snd (execute_sketch (\<lambda>c. lucky_sketch) (Some 5) (Some 42) False home_world)) \<and>
   produced (execute_sketch (\<lambda>c. lucky_sketch) (Some 5) (Some 42) False home_world) =
     Inr (Some \<lparr>page_size = Some (Dbl 100, Dbl 100), geometry = [[(Dbl 0, Dbl 0), (Dbl (- 1), Dbl 0)]]\<rparr>) \<and>
   produced (execute_sketch (\<lambda>c. lucky_sketch) (Some 5) (Some 42) False
     (snd (execute_sketch (\<lambda>c. lucky_sketch) (Some 5) (Some 42) False home_world))) =
     Inr (Some \<lparr>page_size = Some (Dbl 100, Dbl 100), geometry = [[(Dbl 0, Dbl 0), (Dbl 42, Dbl 0)]]\<rparr>)"
  using lucky_run[where a = "Entropy 0" and b = "Entropy 7"]
    lucky_run[where a = "Seeded 42" and b = "Seeded 42"]
  by (simp add: home_variant produced_def same_but_random_def)

end
